theory Spec2Isabelle
  imports Complex_Main
begin

section \<open>Data model of \<open>src/App.tsx\<close>\<close>

text \<open>
  \<open>type Mode = 'pomodoro' | 'shortBreak' | 'longBreak'\<close>. The three string literals are
  the constructors; the keys of \<open>Settings\<close> (and of the modal's \<open>localSettings\<close>) are the
  fields of one record, parametrised by what is stored under each key.
\<close>

datatype Mode = Pomodoro | ShortBreak | LongBreak

record 'a PerMode =
  pomodoro :: 'a
  shortBreak :: 'a
  longBreak :: 'a

text \<open>\<open>obj[mode]\<close> and \<open>{...obj, [mode]: v}\<close>.\<close>

fun get :: "'a PerMode \<Rightarrow> Mode \<Rightarrow> 'a" where
  "get x Pomodoro = pomodoro x"
| "get x ShortBreak = shortBreak x"
| "get x LongBreak = longBreak x"

fun put :: "Mode \<Rightarrow> 'a \<Rightarrow> 'a PerMode \<Rightarrow> 'a PerMode" where
  "put Pomodoro v x = x\<lparr>pomodoro := v\<rparr>"
| "put ShortBreak v x = x\<lparr>shortBreak := v\<rparr>"
| "put LongBreak v x = x\<lparr>longBreak := v\<rparr>"

section \<open>JavaScript numbers\<close>

text \<open>
  A JavaScript number is an IEEE 754 double: a finite value (kept here as the rational it
  denotes), \<open>NaN\<close>, or one of the two infinities. The two zeros are identified: the
  source tests its numbers only with \<open>||\<close>, \<open>>\<close>, \<open>>=\<close>, \<open>===\<close> and \<open>isNaN\<close>, none of
  which tells them apart, and no operation below divides by a computed zero.
\<close>

datatype JsNumber = Finite rat | NaN | PosInfinity | NegInfinity

definition pow2 :: "int \<Rightarrow> rat" where
  "pow2 k = 2 powi k"

text \<open>Rounding to the nearest integer, a tie going to the even neighbour.\<close>

definition roundHalfEven :: "rat \<Rightarrow> int" where
  "roundHalfEven y =
     (if y - of_int \<lfloor>y\<rfloor> < 1 / 2 then \<lfloor>y\<rfloor>
      else if 1 / 2 < y - of_int \<lfloor>y\<rfloor> then \<lfloor>y\<rfloor> + 1
      else if even \<lfloor>y\<rfloor> then \<lfloor>y\<rfloor> else \<lfloor>y\<rfloor> + 1)"

text \<open>
  The exponent \<open>p\<close> of the unit in the last place of a positive \<open>x\<close>: the least
  \<open>p \<ge> -1074\<close> with \<open>x < 2^(p + 53)\<close>, so that \<open>x / 2^p\<close> has at most 53 binary digits
  before the point. It is searched downwards from \<open>0\<close> for \<open>x < 2^53\<close> and upwards from
  \<open>1\<close> otherwise; \<open>971\<close> is the exponent of the largest doubles.
\<close>

function ulpDown :: "int \<Rightarrow> rat \<Rightarrow> int" where
  "ulpDown p x = (if - 1074 < p \<and> x < pow2 (p + 52) then ulpDown (p - 1) x else p)"
  by pat_completeness auto
termination
  by (relation "measure (\<lambda>(p, x). nat (p + 1074))") auto

function ulpUp :: "int \<Rightarrow> rat \<Rightarrow> int" where
  "ulpUp p x = (if p < 971 \<and> pow2 (p + 53) \<le> x then ulpUp (p + 1) x else p)"
  by pat_completeness auto
termination
  by (relation "measure (\<lambda>(p, x). nat (971 - p))") auto

declare ulpDown.simps [simp del] ulpUp.simps [simp del]

definition ulpExp :: "rat \<Rightarrow> int" where
  "ulpExp x = (if x < pow2 53 then ulpDown 0 x else ulpUp 1 x)"

definition roundMagnitude :: "rat \<Rightarrow> rat" where
  "roundMagnitude x = of_int (roundHalfEven (x / pow2 (ulpExp x))) * pow2 (ulpExp x)"

text \<open>
  The double nearest to a rational (ties to even). From \<open>2^1024 - 2^970\<close> on, half an
  ulp above the largest double, the result is an infinity.
\<close>

definition overflowThreshold :: rat where
  "overflowThreshold = pow2 1024 - pow2 970"

definition roundDouble :: "rat \<Rightarrow> JsNumber" where
  "roundDouble x =
     (if x = 0 then Finite 0
      else if overflowThreshold \<le> \<bar>x\<bar> then (if 0 < x then PosInfinity else NegInfinity)
      else if 0 < x then Finite (roundMagnitude x)
      else Finite (- roundMagnitude (- x)))"

text \<open>The arithmetic of the source: \<open>-\<close>, \<open>+\<close>, \<open>*\<close>, \<open>/\<close>, \<open>Math.floor\<close>, \<open>%\<close>.\<close>

definition isNegative :: "JsNumber \<Rightarrow> bool" where
  "isNegative a = (case a of Finite x \<Rightarrow> x < 0 | NegInfinity \<Rightarrow> True | _ \<Rightarrow> False)"

definition jsNeg :: "JsNumber \<Rightarrow> JsNumber" where
  "jsNeg a =
     (case a of
        Finite x \<Rightarrow> Finite (- x)
      | NaN \<Rightarrow> NaN
      | PosInfinity \<Rightarrow> NegInfinity
      | NegInfinity \<Rightarrow> PosInfinity)"

definition jsAdd :: "JsNumber \<Rightarrow> JsNumber \<Rightarrow> JsNumber" where
  "jsAdd a b =
     (if a = NaN \<or> b = NaN then NaN
      else case (a, b) of
        (Finite x, Finite y) \<Rightarrow> roundDouble (x + y)
      | (Finite x, _) \<Rightarrow> b
      | (_, Finite y) \<Rightarrow> a
      | _ \<Rightarrow> if a = b then a else NaN)"

definition jsSub :: "JsNumber \<Rightarrow> JsNumber \<Rightarrow> JsNumber" where
  "jsSub a b = jsAdd a (jsNeg b)"

definition jsMul :: "JsNumber \<Rightarrow> JsNumber \<Rightarrow> JsNumber" where
  "jsMul a b =
     (if a = NaN \<or> b = NaN then NaN
      else case (a, b) of
        (Finite x, Finite y) \<Rightarrow> roundDouble (x * y)
      | _ \<Rightarrow> if a = Finite 0 \<or> b = Finite 0 then NaN
             else if isNegative a \<noteq> isNegative b then NegInfinity
             else PosInfinity)"

definition jsDiv :: "JsNumber \<Rightarrow> JsNumber \<Rightarrow> JsNumber" where
  "jsDiv a b =
     (if a = NaN \<or> b = NaN then NaN
      else case (a, b) of
        (Finite x, Finite y) \<Rightarrow>
          if y = 0 then (if x = 0 then NaN else if 0 < x then PosInfinity else NegInfinity)
          else roundDouble (x / y)
      | (Finite x, _) \<Rightarrow> Finite 0
      | (_, Finite y) \<Rightarrow> if isNegative a \<noteq> isNegative b then NegInfinity else PosInfinity
      | _ \<Rightarrow> NaN)"

definition jsFloor :: "JsNumber \<Rightarrow> JsNumber" where
  "jsFloor a = (case a of Finite x \<Rightarrow> Finite (of_int \<lfloor>x\<rfloor>) | _ \<Rightarrow> a)"

definition jsTrunc :: "rat \<Rightarrow> int" where
  "jsTrunc q = (if 0 \<le> q then \<lfloor>q\<rfloor> else \<lceil>q\<rceil>)"

text \<open>
  \<open>a % b\<close>: the remainder takes the sign of the dividend and is exact; it is \<open>NaN\<close> for an
  infinite dividend or a zero divisor, and the dividend itself for an infinite divisor.
\<close>

definition jsRem :: "JsNumber \<Rightarrow> JsNumber \<Rightarrow> JsNumber" where
  "jsRem a b =
     (case a of
        Finite x \<Rightarrow>
          (case b of
             Finite y \<Rightarrow> if y = 0 then NaN else Finite (x - y * of_int (jsTrunc (x / y)))
           | NaN \<Rightarrow> NaN
           | _ \<Rightarrow> Finite x)
      | _ \<Rightarrow> NaN)"

text \<open>\<open>a < b\<close> and \<open>a <= b\<close>; every comparison with \<open>NaN\<close> is false.\<close>

definition jsLess :: "JsNumber \<Rightarrow> JsNumber \<Rightarrow> bool" where
  "jsLess a b =
     (case (a, b) of
        (Finite x, Finite y) \<Rightarrow> x < y
      | (NaN, _) \<Rightarrow> False
      | (_, NaN) \<Rightarrow> False
      | (NegInfinity, _) \<Rightarrow> b \<noteq> NegInfinity
      | (_, PosInfinity) \<Rightarrow> a \<noteq> PosInfinity
      | _ \<Rightarrow> False)"

definition jsLessEq :: "JsNumber \<Rightarrow> JsNumber \<Rightarrow> bool" where
  "jsLessEq a b = (jsLess a b \<or> (a = b \<and> a \<noteq> NaN))"

text \<open>A number is truthy unless it is zero or \<open>NaN\<close>.\<close>

definition truthy :: "JsNumber \<Rightarrow> bool" where
  "truthy a = (a \<noteq> Finite 0 \<and> a \<noteq> NaN)"

section \<open>Settings and the settings modal\<close>

type_synonym Settings = "JsNumber PerMode"

definition DEFAULT_SETTINGS :: Settings where
  "DEFAULT_SETTINGS =
     \<lparr>pomodoro = jsMul (Finite 25) (Finite 60),
      shortBreak = jsMul (Finite 5) (Finite 60),
      longBreak = jsMul (Finite 15) (Finite 60)\<rparr>"

text \<open>
  A field of the modal's \<open>localSettings\<close> holds a number or the empty string
  (\<open>'' as any\<close>). \<open>MinSec\<close> is the object \<open>{m, s}\<close> kept for each mode; \<open>Field\<close> is
  \<open>'m' | 's'\<close>.
\<close>

datatype Entry = Num JsNumber | EmptyStr

record MinSec =
  m_val :: Entry
  s_val :: Entry

datatype Field = M | S

type_synonym LocalSettings = "MinSec PerMode"

text \<open>\<open>{ m: Math.floor(x / 60), s: x % 60 }\<close>.\<close>

definition toMinSec :: "JsNumber \<Rightarrow> MinSec" where
  "toMinSec x = \<lparr>m_val = Num (jsFloor (jsDiv x (Finite 60))), s_val = Num (jsRem x (Finite 60))\<rparr>"

text \<open>The initial value of \<open>useState\<close> in \<open>SettingsModal\<close>.\<close>

definition initLocal :: "Settings \<Rightarrow> LocalSettings" where
  "initLocal st = \<lparr>pomodoro = toMinSec (pomodoro st),
                    shortBreak = toMinSec (shortBreak st),
                    longBreak = toMinSec (longBreak st)\<rparr>"

text \<open>
  A JavaScript string is a sequence of UTF-16 code units. \<open>parseInt(value, 10)\<close> skips
  leading white space (the white space and line terminator code points of the language),
  reads one sign, then the longest run of decimal digits; no digit gives \<open>NaN\<close>, and the
  integer read is rounded to a double. (For more than 20 significant digits the language
  lets an implementation read the further digits as zeros; the correctly rounded result
  is taken here.)
\<close>

type_synonym JsString = "nat list"

definition isWhiteSpace :: "nat \<Rightarrow> bool" where
  "isWhiteSpace c =
     (c \<in> {9, 10, 11, 12, 13, 32, 160, 5760, 8232, 8233, 8239, 8287, 12288, 65279}
      \<or> (8192 \<le> c \<and> c \<le> 8202))"

definition isDigit :: "nat \<Rightarrow> bool" where
  "isDigit c = (48 \<le> c \<and> c \<le> 57)"

definition digitVal :: "nat \<Rightarrow> int" where
  "digitVal c = int c - 48"

definition digitsVal :: "JsString \<Rightarrow> int" where
  "digitsVal ds = foldl (\<lambda>a c. 10 * a + digitVal c) 0 ds"

definition parseInt :: "JsString \<Rightarrow> JsNumber" where
  "parseInt v =
     (let t = dropWhile isWhiteSpace v;
          neg = (t \<noteq> [] \<and> hd t = 45);
          u = (if t \<noteq> [] \<and> (hd t = 43 \<or> hd t = 45) then tl t else t);
          z = takeWhile isDigit u
      in if z = [] then NaN
         else roundDouble (of_int (if neg then - digitsVal z else digitsVal z)))"

definition setField :: "Field \<Rightarrow> Entry \<Rightarrow> MinSec \<Rightarrow> MinSec" where
  "setField f e ms = (case f of M \<Rightarrow> ms\<lparr>m_val := e\<rparr> | S \<Rightarrow> ms\<lparr>s_val := e\<rparr>)"

text \<open>
  \<open>handleChange(mode, field, value)\<close>: a parsed number that is not \<open>NaN\<close> and not negative
  is stored, the empty string is stored as such, and any other input leaves
  \<open>localSettings\<close> as it was.
\<close>

definition handleChange :: "Mode \<Rightarrow> Field \<Rightarrow> JsString \<Rightarrow> LocalSettings \<Rightarrow> LocalSettings" where
  "handleChange k f v l =
     (if parseInt v \<noteq> NaN \<and> jsLessEq (Finite 0) (parseInt v)
        then put k (setField f (Num (parseInt v)) (get l k)) l
      else if v = [] then put k (setField f EmptyStr (get l k)) l
      else l)"

text \<open>\<open>x || 0\<close> on a field: the empty string, zero and \<open>NaN\<close> are falsy.\<close>

definition orZero :: "Entry \<Rightarrow> JsNumber" where
  "orZero e = (case e of Num n \<Rightarrow> (if truthy n then n else Finite 0) | EmptyStr \<Rightarrow> Finite 0)"

text \<open>
  The expression \<open>((x.m || 0) * 60) + (x.s || 0) || DEFAULT_SETTINGS.x\<close> that
  \<open>handleSave\<close> evaluates for each mode: \<open>total\<close> is its left operand, \<open>finalSeconds\<close>
  the whole of it.
\<close>

definition total :: "MinSec \<Rightarrow> JsNumber" where
  "total ms = jsAdd (jsMul (orZero (m_val ms)) (Finite 60)) (orZero (s_val ms))"

definition finalSeconds :: "MinSec \<Rightarrow> JsNumber \<Rightarrow> JsNumber" where
  "finalSeconds ms dflt = (if truthy (total ms) then total ms else dflt)"

text \<open>The object \<open>finalSettings\<close> that \<open>handleSave\<close> passes to \<open>onSave\<close>.\<close>

definition handleSave :: "LocalSettings \<Rightarrow> Settings" where
  "handleSave l =
     \<lparr>pomodoro = finalSeconds (pomodoro l) (pomodoro DEFAULT_SETTINGS),
      shortBreak = finalSeconds (shortBreak l) (shortBreak DEFAULT_SETTINGS),
      longBreak = finalSeconds (longBreak l) (longBreak DEFAULT_SETTINGS)\<rparr>"

section \<open>The \<open>App\<close> component\<close>

text \<open>
  The state of the component: its \<open>useState\<close> cells, the \<open>timerRef\<close> reference, and
  what React and the host keep for it.
  \<^item> \<open>settingsId\<close> is the identity of the object held in \<open>settings\<close>: the dependency
    array \<open>[mode, settings]\<close> is compared by identity, and \<open>handleSave\<close> builds a new
    object literal on every call.
  \<^item> \<open>modal\<close> is \<open>Some localSettings\<close> while the settings modal is mounted and holds
    its own state. It is mounted when \<open>showSettings\<close> becomes true, and when
    \<open>showSettings\<close> becomes false it stays mounted until its exit animation is over.
  \<^item> \<open>intervals\<close> is the host's set of live interval ids and \<open>nextId\<close> the id the next
    \<open>window.setInterval\<close> returns.
  \<^item> \<open>deps1\<close> and \<open>deps2\<close> are the dependency values React stored at the last run of
    the two effects (\<open>None\<close> before the first run). The callback
    \<open>playNotificationSound\<close> changes identity exactly when \<open>soundEnabled\<close> changes.
  \<^item> \<open>audioOk\<close> belongs to the environment: whether building the \<open>AudioContext\<close> and
    the tones succeeds or throws.
  \<^item> \<open>completed\<close>, \<open>tonesPlayed\<close> and \<open>errorsLogged\<close> count the observable effects:
    runs of the completion branch, tone sequences started, and calls of
    \<open>console.error\<close>.
  The theme and its panel are presentation only and are left out.
\<close>

record App =
  mode :: Mode
  settings :: Settings
  settingsId :: nat
  timeLeft :: JsNumber
  isActive :: bool
  showSettings :: bool
  modal :: "LocalSettings option"
  soundEnabled :: bool
  timerRef :: "nat option"
  intervals :: "nat set"
  nextId :: nat
  deps1 :: "(bool \<times> JsNumber \<times> bool) option"
  deps2 :: "(Mode \<times> nat) option"
  audioOk :: bool
  completed :: nat
  tonesPlayed :: nat
  errorsLogged :: nat

text \<open>
  \<open>playNotificationSound\<close>: nothing when sound is off; otherwise the tones are played,
  and an exception of the audio subsystem is caught and logged.
\<close>

definition playNotificationSound :: "App \<Rightarrow> App" where
  "playNotificationSound a =
     (if \<not> soundEnabled a then a
      else if audioOk a then a\<lparr>tonesPlayed := tonesPlayed a + 1\<rparr>
      else a\<lparr>errorsLogged := errorsLogged a + 1\<rparr>)"

text \<open>\<open>if (timerRef.current) clearInterval(timerRef.current)\<close>; the id \<open>0\<close> is falsy.\<close>

definition clearTimer :: "App \<Rightarrow> App" where
  "clearTimer a =
     (case timerRef a of
        None \<Rightarrow> a
      | Some i \<Rightarrow> if i = 0 then a else a\<lparr>intervals := intervals a - {i}\<rparr>)"

text \<open>
  The body of the first effect, on the values \<open>act\<close> and \<open>left\<close> of \<open>isActive\<close> and
  \<open>timeLeft\<close> in the render it belongs to.
\<close>

definition tickEffect :: "bool \<Rightarrow> JsNumber \<Rightarrow> App \<Rightarrow> App" where
  "tickEffect act left a =
     (if act \<and> jsLess (Finite 0) left then
        a\<lparr>timerRef := Some (nextId a), intervals := insert (nextId a) (intervals a),
          nextId := nextId a + 1\<rparr>
      else if act \<and> left = Finite 0 then
        clearTimer (playNotificationSound (a\<lparr>isActive := False, completed := completed a + 1\<rparr>))
      else a)"

text \<open>The body of the second effect: \<open>setTimeLeft(settings[mode]); setIsActive(false)\<close>.\<close>

definition resetEffect :: "App \<Rightarrow> App" where
  "resetEffect a = a\<lparr>timeLeft := get (settings a) (mode a), isActive := False\<rparr>"

definition curDeps1 :: "App \<Rightarrow> bool \<times> JsNumber \<times> bool" where
  "curDeps1 a = (isActive a, timeLeft a, soundEnabled a)"

definition curDeps2 :: "App \<Rightarrow> Mode \<times> nat" where
  "curDeps2 a = (mode a, settingsId a)"

text \<open>An effect is due when its dependencies differ from those of its last run.\<close>

definition stale :: "App \<Rightarrow> bool" where
  "stale a = (deps1 a \<noteq> Some (curDeps1 a) \<or> deps2 a \<noteq> Some (curDeps2 a))"

text \<open>
  One commit: the effects that are due run in the order of the source, each on the values
  of the render just committed. The first effect runs its previous cleanup (if there was a
  run before), then its body. The second effect reads only \<open>mode\<close> and \<open>settings\<close>,
  which no effect writes.
\<close>

definition commit :: "App \<Rightarrow> App" where
  "commit a =
     (let d1 = curDeps1 a; d2 = curDeps2 a;
          b = (if deps1 a = Some d1 then a
               else (tickEffect (isActive a) (timeLeft a)
                       (if deps1 a = None then a else clearTimer a))\<lparr>deps1 := Some d1\<rparr>);
          c = (if deps2 b = Some d2 then b else (resetEffect b)\<lparr>deps2 := Some d2\<rparr>)
      in c)"

text \<open>
  The measure under which \<open>commit\<close> decreases while an effect is due: the second effect
  runs at most once per change of \<open>mode\<close> or \<open>settings\<close>, the first effect can only
  switch \<open>isActive\<close> off, and a run brings the stored dependencies up to date.
\<close>

definition rank :: "App \<Rightarrow> nat" where
  "rank a = (if deps2 a \<noteq> Some (curDeps2 a) then 4 else 0)
            + (if isActive a then 2 else 0)
            + (if deps1 a \<noteq> Some (curDeps1 a) then 1 else 0)"

text \<open>React renders and commits again as long as an effect changed a dependency.\<close>

function settle :: "App \<Rightarrow> App" where
  "settle a = (if stale a then settle (commit a) else a)"
  by pat_completeness auto
termination
proof (relation "measure rank")
  show "wf (measure rank)" by simp
next
  fix a
  assume st: "stale a"
  have tick_act: "\<And>act left b. isActive (tickEffect act left b) = (isActive b \<and> \<not> (act \<and> left = Finite 0))"
    by (simp add: tickEffect_def clearTimer_def playNotificationSound_def jsLess_def
        split: option.splits)
  have tick_rest: "\<And>act left b. timeLeft (tickEffect act left b) = timeLeft b
      \<and> soundEnabled (tickEffect act left b) = soundEnabled b
      \<and> mode (tickEffect act left b) = mode b
      \<and> settingsId (tickEffect act left b) = settingsId b
      \<and> deps2 (tickEffect act left b) = deps2 b"
    by (simp add: tickEffect_def clearTimer_def playNotificationSound_def split: option.splits)
  have clear_rest: "\<And>b. isActive (clearTimer b) = isActive b \<and> timeLeft (clearTimer b) = timeLeft b
      \<and> soundEnabled (clearTimer b) = soundEnabled b \<and> mode (clearTimer b) = mode b
      \<and> settingsId (clearTimer b) = settingsId b \<and> deps2 (clearTimer b) = deps2 b"
    by (simp add: clearTimer_def split: option.splits)
  have d2: "deps2 (commit a) = Some (curDeps2 (commit a))"
    by (simp add: commit_def Let_def resetEffect_def curDeps2_def tick_rest clear_rest)
  have act: "isActive (commit a) \<Longrightarrow> isActive a"
    by (simp add: commit_def Let_def resetEffect_def tick_act clear_rest split: if_splits)
  have "rank (commit a) < rank a"
  proof (cases "deps2 a = Some (curDeps2 a)")
    case False
    have "rank (commit a) \<le> 3" using act d2 by (simp add: rank_def)
    moreover have "4 \<le> rank a" using False by (simp add: rank_def)
    ultimately show ?thesis by simp
  next
    case True
    with st have s1: "deps1 a \<noteq> Some (curDeps1 a)" by (simp add: stale_def)
    have c: "commit a = (tickEffect (isActive a) (timeLeft a)
                       (if deps1 a = None then a else clearTimer a))\<lparr>deps1 := Some (curDeps1 a)\<rparr>"
      using True s1 by (simp add: commit_def Let_def tick_rest clear_rest)
    show ?thesis
    proof (cases "isActive a \<and> timeLeft a = Finite 0")
      case True
      then have "\<not> isActive (commit a)" by (simp add: c tick_act)
      then have "rank (commit a) \<le> 1" using d2 by (simp add: rank_def)
      moreover have "rank a = 3" using True \<open>deps2 a = Some (curDeps2 a)\<close> s1 by (simp add: rank_def)
      ultimately show ?thesis by simp
    next
      case False
      have f: "isActive (commit a) = isActive a"
        using False by (auto simp add: c tick_act clear_rest)
      have d: "curDeps1 (commit a) = curDeps1 a"
        using f by (simp add: c curDeps1_def tick_rest clear_rest)
      have e: "deps1 (commit a) = Some (curDeps1 a)" by (simp add: c)
      have "rank (commit a) = (if isActive a then 2 else 0)"
        unfolding rank_def by (simp add: d e f d2)
      then show ?thesis using s1 by (simp add: rank_def)
    qed
  qed
  then show "(commit a, a) \<in> measure rank" by simp
qed

declare settle.simps [simp del]

section \<open>Events\<close>

text \<open>
  Every handler updates the state and React then renders and runs the effects until no
  effect is due. The state before the first render, and the mounted component.
\<close>

definition mount :: "bool \<Rightarrow> App" where
  "mount ok =
     \<lparr>mode = Pomodoro, settings = DEFAULT_SETTINGS, settingsId = 0,
      timeLeft = pomodoro DEFAULT_SETTINGS, isActive = False,
      showSettings = False, modal = None,
      soundEnabled = True, timerRef = None, intervals = {}, nextId = 1,
      deps1 = None, deps2 = None, audioOk = ok,
      completed = 0, tonesPlayed = 0, errorsLogged = 0\<rparr>"

definition init :: "bool \<Rightarrow> App" where
  "init ok = settle (mount ok)"

text \<open>The mode buttons: \<open>onClick={() => setMode(m)}\<close>.\<close>

definition setMode :: "Mode \<Rightarrow> App \<Rightarrow> App" where
  "setMode m a = settle (a\<lparr>mode := m\<rparr>)"

text \<open>\<open>toggleTimer = () => setIsActive(!isActive)\<close>.\<close>

definition toggleTimer :: "App \<Rightarrow> App" where
  "toggleTimer a = settle (a\<lparr>isActive := \<not> isActive a\<rparr>)"

text \<open>\<open>resetTimer\<close>: \<open>setIsActive(false); setTimeLeft(settings[mode])\<close>.\<close>

definition resetTimer :: "App \<Rightarrow> App" where
  "resetTimer a = settle (a\<lparr>isActive := False, timeLeft := get (settings a) (mode a)\<rparr>)"

text \<open>
  \<open>handleSaveSettings(newSettings)\<close>: \<open>setSettings(newSettings); setShowSettings(false)\<close>.
  The argument is a new object, so the identity held in \<open>settings\<close> changes even when
  the values do not.
\<close>

definition handleSaveSettings :: "Settings \<Rightarrow> App \<Rightarrow> App" where
  "handleSaveSettings newSettings a =
     settle (a\<lparr>settings := newSettings, settingsId := settingsId a + 1,
               showSettings := False\<rparr>)"

text \<open>The callback of a live interval: \<open>setTimeLeft((prev) => prev - 1)\<close>.\<close>

definition intervalFires :: "nat \<Rightarrow> App \<Rightarrow> App" where
  "intervalFires i a =
     (if i \<in> intervals a then settle (a\<lparr>timeLeft := jsSub (timeLeft a) (Finite 1)\<rparr>)
      else a)"

text \<open>One second passes: the interval that \<open>timerRef\<close> refers to fires, if it is live.\<close>

definition tick :: "App \<Rightarrow> App" where
  "tick a = (case timerRef a of None \<Rightarrow> a | Some i \<Rightarrow> intervalFires i a)"

text \<open>The sound button: \<open>setSoundEnabled(!soundEnabled)\<close>.\<close>

definition toggleSound :: "App \<Rightarrow> App" where
  "toggleSound a = settle (a\<lparr>soundEnabled := \<not> soundEnabled a\<rparr>)"

text \<open>
  The settings button: \<open>setShowSettings(true)\<close>. A modal that is not mounted is mounted,
  its state starting from the current settings; a modal still mounted (shown, or in its
  exit animation) keeps its state. The modal's inputs and its save button (\<open>handleSave\<close>,
  then \<open>onSave\<close>) exist while it is mounted; its close button is
  \<open>setShowSettings(false)\<close>. When the exit animation of a closed modal is over, the modal
  is unmounted.
\<close>

definition openSettings :: "App \<Rightarrow> App" where
  "openSettings a =
     settle (a\<lparr>showSettings := True,
               modal := (case modal a of
                           None \<Rightarrow> Some (initLocal (settings a))
                         | Some l \<Rightarrow> Some l)\<rparr>)"

definition changeField :: "Mode \<Rightarrow> Field \<Rightarrow> JsString \<Rightarrow> App \<Rightarrow> App" where
  "changeField k f v a =
     (case modal a of
        None \<Rightarrow> a
      | Some l \<Rightarrow> settle (a\<lparr>modal := Some (handleChange k f v l)\<rparr>))"

definition saveClicked :: "App \<Rightarrow> App" where
  "saveClicked a =
     (case modal a of
        None \<Rightarrow> a
      | Some l \<Rightarrow> handleSaveSettings (handleSave l) a)"

definition closeSettings :: "App \<Rightarrow> App" where
  "closeSettings a = settle (a\<lparr>showSettings := False\<rparr>)"

definition exitComplete :: "App \<Rightarrow> App" where
  "exitComplete a = (if showSettings a then a else settle (a\<lparr>modal := None\<rparr>))"

text \<open>The states the component can be in between two events.\<close>

inductive reachable :: "App \<Rightarrow> bool" where
  r_init: "reachable (init ok)"
| r_setMode: "reachable a \<Longrightarrow> reachable (setMode m a)"
| r_toggleTimer: "reachable a \<Longrightarrow> reachable (toggleTimer a)"
| r_resetTimer: "reachable a \<Longrightarrow> reachable (resetTimer a)"
| r_interval: "reachable a \<Longrightarrow> reachable (intervalFires i a)"
| r_toggleSound: "reachable a \<Longrightarrow> reachable (toggleSound a)"
| r_openSettings: "reachable a \<Longrightarrow> reachable (openSettings a)"
| r_changeField: "reachable a \<Longrightarrow> reachable (changeField k f v a)"
| r_saveClicked: "reachable a \<Longrightarrow> reachable (saveClicked a)"
| r_closeSettings: "reachable a \<Longrightarrow> reachable (closeSettings a)"
| r_exitComplete: "reachable a \<Longrightarrow> reachable (exitComplete a)"
| r_audio: "reachable a \<Longrightarrow> reachable (a\<lparr>audioOk := ok\<rparr>)"

text \<open>\<open>progress = 1 - timeLeft / settings[mode]\<close>, in double arithmetic.\<close>

definition progress :: "App \<Rightarrow> JsNumber" where
  "progress a = jsSub (Finite 1) (jsDiv (timeLeft a) (get (settings a) (mode a)))"

section \<open>Consistency of the state between two events\<close>

text \<open>The live intervals that are left after \<open>clearTimer\<close>.\<close>

definition cleared :: "App \<Rightarrow> nat set" where
  "cleared a = (case timerRef a of None \<Rightarrow> intervals a
                | Some i \<Rightarrow> if i = 0 then intervals a else intervals a - {i})"

text \<open>
  The non-negative doubles, the whole numbers (a non-negative integer or \<open>Infinity\<close>), and
  the counts: the whole numbers that are doubles.
\<close>

definition isDouble :: "rat \<Rightarrow> bool" where
  "isDouble y =
     (\<exists>m q. 0 \<le> m \<and> m < 2 ^ 53 \<and> - 1074 \<le> q \<and> q \<le> 971 \<and> y = of_int m * pow2 q)"

definition isWhole :: "JsNumber \<Rightarrow> bool" where
  "isWhole v = (v = PosInfinity \<or> (\<exists>n. 0 \<le> n \<and> v = Finite (of_int n)))"

definition isCount :: "JsNumber \<Rightarrow> bool" where
  "isCount v = (v = PosInfinity \<or> (\<exists>n. 0 \<le> n \<and> v = Finite (of_int n) \<and> isDouble (of_int n)))"

text \<open>
  What the modal's state and the saved settings satisfy: a stored field is empty, \<open>NaN\<close>
  or a whole number, and a saved duration is a count of at least one second.
\<close>

definition entryOk :: "Entry \<Rightarrow> bool" where
  "entryOk e = (case e of Num v \<Rightarrow> v = NaN \<or> isWhole v | EmptyStr \<Rightarrow> True)"

definition minSecOk :: "MinSec \<Rightarrow> bool" where
  "minSecOk ms = (entryOk (m_val ms) \<and> entryOk (s_val ms))"

definition localOk :: "LocalSettings \<Rightarrow> bool" where
  "localOk l = (minSecOk (pomodoro l) \<and> minSecOk (shortBreak l) \<and> minSecOk (longBreak l))"

definition durationOk :: "JsNumber \<Rightarrow> bool" where
  "durationOk v = (isCount v \<and> jsLessEq (Finite 1) v)"

definition settingsOk :: "Settings \<Rightarrow> bool" where
  "settingsOk st = (durationOk (pomodoro st) \<and> durationOk (shortBreak st) \<and> durationOk (longBreak st))"

definition modalOk :: "App \<Rightarrow> bool" where
  "modalOk a = (case modal a of None \<Rightarrow> True | Some l \<Rightarrow> localOk l)"

text \<open>
  The timer discipline: \<open>timerRef\<close> holds an id the host has issued, and exactly while the
  countdown runs that interval is the one live interval.
\<close>

definition timerOk :: "App \<Rightarrow> bool" where
  "timerOk a =
     (0 < nextId a \<and>
      (case timerRef a of
         None \<Rightarrow> \<not> isActive a \<and> intervals a = {}
       | Some i \<Rightarrow> 0 < i \<and> i < nextId a \<and> intervals a = (if isActive a then {i} else {})))"

text \<open>
  A state is consistent when no effect is due, the timer discipline holds, a running
  countdown has time left, and the time left is a count that is at most the duration
  configured for the mode.
\<close>

definition consistent :: "App \<Rightarrow> bool" where
  "consistent a =
     (deps1 a = Some (curDeps1 a) \<and> deps2 a = Some (curDeps2 a) \<and> timerOk a \<and>
      (isActive a \<longrightarrow> jsLess (Finite 0) (timeLeft a)) \<and>
      isCount (timeLeft a) \<and> jsLessEq (timeLeft a) (get (settings a) (mode a)) \<and>
      settingsOk (settings a) \<and> modalOk a)"

section \<open>Scenarios\<close>

text \<open>
  States reached by a few clicks from the mounted component (with working audio). Typed
  input is given in code units: \<open>48\<close> to \<open>57\<close> are the digits, \<open>45\<close> is the minus sign.
  The countdown started at the default 25 minutes; the focus duration saved as 0 minutes
  and 1 second in the settings modal; the countdown started from there, with the sound on
  and with the sound switched off.
\<close>

definition started :: App where
  "started = toggleTimer (init True)"

definition oneSecondSaved :: App where
  "oneSecondSaved =
     saveClicked (changeField Pomodoro S [49] (changeField Pomodoro M [48]
       (openSettings (init True))))"

definition oneSecondLeft :: App where
  "oneSecondLeft = toggleTimer oneSecondSaved"

definition mutedOneSecondLeft :: App where
  "mutedOneSecondLeft = toggleTimer (toggleSound oneSecondSaved)"

text \<open>The settings modal open, with 0 typed into the minutes of the focus duration.\<close>

definition zeroEntered :: App where
  "zeroEntered = changeField Pomodoro M [48] (openSettings (init True))"

text \<open>
  The focus duration saved as 150119987579017 minutes (\<open>2^53 + 28\<close> seconds) and the
  countdown started.
\<close>

definition bigRun :: App where
  "bigRun =
     toggleTimer (saveClicked (changeField Pomodoro M
       [49, 53, 48, 49, 49, 57, 57, 56, 55, 53, 55, 57, 48, 49, 55]
       (openSettings (init True))))"

text \<open>
  The focus duration saved with a 3 followed by 306 zeros typed into the minutes: a
  number of minutes that is a finite double, and a number of seconds that is not.
\<close>

definition hugeSaved :: App where
  "hugeSaved =
     saveClicked (changeField Pomodoro M (51 # replicate 306 48) (openSettings (init True)))"

section \<open>Rounding to a double\<close>

lemma pow2_pos [simp]: "0 < pow2 k"
  by (simp add: pow2_def)

lemma pow2_nonneg [simp]: "0 \<le> pow2 k"
  by (simp add: pow2_def)

lemma pow2_nonzero [simp]: "pow2 k \<noteq> 0"
  by (simp add: pow2_def)

lemma pow2_add: "pow2 (a + b) = pow2 a * pow2 b"
  by (simp add: pow2_def power_int_add)

lemma pow2_mono: "a \<le> b \<Longrightarrow> pow2 a \<le> pow2 b"
  by (simp add: pow2_def power_int_increasing)

lemma pow2_strict_mono: "a < b \<Longrightarrow> pow2 a < pow2 b"
  by (simp add: pow2_def power_int_strict_increasing)

lemma pow2_nat: "0 \<le> k \<Longrightarrow> pow2 k = of_int (2 ^ nat k)"
  by (simp add: pow2_def power_int_nonneg_exp)

lemma pow2_diff: "pow2 (a - b) = pow2 a / pow2 b"
  by (simp add: pow2_def power_int_diff)

subsection \<open>Rounding to an integer\<close>

lemma roundHalfEven_of_int [simp]: "roundHalfEven (of_int k) = k"
  by (simp add: roundHalfEven_def)

lemma roundHalfEven_le: "y \<le> of_int k \<Longrightarrow> roundHalfEven y \<le> k"
proof -
  assume le: "y \<le> of_int k"
  show ?thesis
  proof (cases "y = of_int k")
    case True
    then show ?thesis by simp
  next
    case False
    with le have "y < of_int k" by simp
    then have "\<lfloor>y\<rfloor> < k" by (simp add: floor_less_iff)
    then show ?thesis by (simp add: roundHalfEven_def)
  qed
qed

lemma roundHalfEven_ge: "of_int k \<le> y \<Longrightarrow> k \<le> roundHalfEven y"
proof -
  assume "of_int k \<le> y"
  then have "k \<le> \<lfloor>y\<rfloor>" by (simp add: le_floor_iff)
  then show ?thesis by (simp add: roundHalfEven_def)
qed

lemma roundHalfEven_near: "\<bar>of_int (roundHalfEven y) - y\<bar> \<le> 1 / 2"
proof -
  have a: "of_int \<lfloor>y\<rfloor> \<le> y" by simp
  have b: "y < of_int \<lfloor>y\<rfloor> + 1" by linarith
  consider "y - of_int \<lfloor>y\<rfloor> < 1 / 2" | "1 / 2 < y - of_int \<lfloor>y\<rfloor>" | "y - of_int \<lfloor>y\<rfloor> = 1 / 2"
    by linarith
  then show ?thesis
  proof cases
    case 1
    then have "roundHalfEven y = \<lfloor>y\<rfloor>" by (simp add: roundHalfEven_def)
    then show ?thesis using a 1 by simp
  next
    case 2
    then have "roundHalfEven y = \<lfloor>y\<rfloor> + 1" by (simp add: roundHalfEven_def)
    then show ?thesis using b 2 by simp
  next
    case 3
    then have "roundHalfEven y = \<lfloor>y\<rfloor> \<or> roundHalfEven y = \<lfloor>y\<rfloor> + 1"
      by (simp add: roundHalfEven_def)
    then show ?thesis using 3 by auto
  qed
qed

subsection \<open>The exponent of the unit in the last place\<close>

lemma ulpDown_props:
  "x < pow2 (p + 53) \<Longrightarrow> - 1074 \<le> p \<Longrightarrow>
     - 1074 \<le> ulpDown p x \<and> ulpDown p x \<le> p \<and> x < pow2 (ulpDown p x + 53)
     \<and> (- 1074 < ulpDown p x \<longrightarrow> pow2 (ulpDown p x + 52) \<le> x)"
proof (induction p x rule: ulpDown.induct)
  case (1 p x)
  show ?case
  proof (cases "- 1074 < p \<and> x < pow2 (p + 52)")
    case True
    then have e: "ulpDown p x = ulpDown (p - 1) x" by (subst ulpDown.simps) auto
    have "x < pow2 (p - 1 + 53)" using True by (simp add: algebra_simps)
    moreover have "- 1074 \<le> p - 1" using True by simp
    ultimately show ?thesis using "1.IH" [OF True] unfolding e by fastforce
  next
    case False
    then have e: "ulpDown p x = p" by (subst ulpDown.simps) auto
    show ?thesis using False "1.prems" unfolding e by auto
  qed
qed

lemma ulpUp_props:
  "pow2 (p + 52) \<le> x \<Longrightarrow> p \<le> 971 \<Longrightarrow>
     p \<le> ulpUp p x \<and> ulpUp p x \<le> 971 \<and> pow2 (ulpUp p x + 52) \<le> x
     \<and> (ulpUp p x < 971 \<longrightarrow> x < pow2 (ulpUp p x + 53))"
proof (induction p x rule: ulpUp.induct)
  case (1 p x)
  show ?case
  proof (cases "p < 971 \<and> pow2 (p + 53) \<le> x")
    case True
    then have e: "ulpUp p x = ulpUp (p + 1) x" by (subst ulpUp.simps) auto
    have "pow2 (p + 1 + 52) \<le> x" using True by (simp add: algebra_simps)
    moreover have "p + 1 \<le> 971" using True by simp
    ultimately show ?thesis using "1.IH" [OF True] unfolding e by fastforce
  next
    case False
    then have e: "ulpUp p x = p" by (subst ulpUp.simps) auto
    show ?thesis using False "1.prems" unfolding e by auto
  qed
qed

lemma ulpExp_props:
  assumes "x < pow2 1024"
  shows "- 1074 \<le> ulpExp x \<and> ulpExp x \<le> 971 \<and> x < pow2 (ulpExp x + 53)
     \<and> (- 1074 < ulpExp x \<longrightarrow> pow2 (ulpExp x + 52) \<le> x)"
proof (cases "x < pow2 53")
  case True
  then have e: "ulpExp x = ulpDown 0 x" by (simp add: ulpExp_def)
  have "x < pow2 (0 + 53)" using True by simp
  from ulpDown_props [OF this] show ?thesis unfolding e by auto
next
  case False
  then have e: "ulpExp x = ulpUp 1 x" by (simp add: ulpExp_def)
  have "pow2 (1 + 52) \<le> x" using False by simp
  from ulpUp_props [OF this] have p: "1 \<le> ulpUp 1 x \<and> ulpUp 1 x \<le> 971 \<and> pow2 (ulpUp 1 x + 52) \<le> x
     \<and> (ulpUp 1 x < 971 \<longrightarrow> x < pow2 (ulpUp 1 x + 53))" by simp
  have "x < pow2 (ulpUp 1 x + 53)"
  proof (cases "ulpUp 1 x < 971")
    case True
    then show ?thesis using p by simp
  next
    case False
    then have "ulpUp 1 x = 971" using p by simp
    then show ?thesis using assms by simp
  qed
  then show ?thesis using p unfolding e by auto
qed

lemma ulpExp_small: "x < pow2 53 \<Longrightarrow> ulpExp x \<le> 0"
  using ulpDown_props [of x 0] by (simp add: ulpExp_def)

lemma ulpExp_large: "pow2 53 \<le> x \<Longrightarrow> 1 \<le> ulpExp x"
  using ulpUp_props [of 1 x] by (simp add: ulpExp_def)

lemma roundHalfEven_less: "y < of_int k - 1 / 2 \<Longrightarrow> roundHalfEven y < k"
proof -
  assume "y < of_int k - 1 / 2"
  moreover have "of_int (roundHalfEven y) - y \<le> 1 / 2"
    using roundHalfEven_near [of y] by linarith
  ultimately have "(of_int (roundHalfEven y) :: rat) < of_int k" by linarith
  then show ?thesis by simp
qed

lemma overflowThreshold_less: "overflowThreshold < pow2 1024"
  by (simp add: overflowThreshold_def)

lemma pow2_53: "pow2 53 = 9007199254740992"
  by (simp add: pow2_def)

lemma threshold_large: "pow2 53 < overflowThreshold"
proof -
  have "pow2 1024 = pow2 970 * pow2 54" using pow2_add [of 970 54] by simp
  moreover have "pow2 54 = 18014398509481984" by (simp add: pow2_def)
  ultimately have "overflowThreshold = pow2 970 * 18014398509481983"
    by (simp add: overflowThreshold_def algebra_simps)
  moreover have "pow2 53 \<le> pow2 970" by (rule pow2_mono) simp
  moreover have "pow2 970 * 1 < pow2 970 * 18014398509481983"
    by (rule mult_strict_left_mono) simp_all
  ultimately show ?thesis by simp
qed

lemma roundMagnitude_nonneg: "0 \<le> x \<Longrightarrow> 0 \<le> roundMagnitude x"
proof -
  assume "0 \<le> x"
  then have "of_int 0 \<le> x / pow2 (ulpExp x)" by simp
  then have "0 \<le> roundHalfEven (x / pow2 (ulpExp x))" by (rule roundHalfEven_ge)
  then show ?thesis by (simp add: roundMagnitude_def)
qed

lemma isDouble_less: "isDouble y \<Longrightarrow> y < overflowThreshold"
proof -
  assume "isDouble y"
  then obtain m q where mq: "0 \<le> m" "m < 2 ^ 53" "- 1074 \<le> q" "q \<le> 971" "y = of_int m * pow2 q"
    by (auto simp add: isDouble_def)
  have "m \<le> 2 ^ 53 - 1" using mq(2) by simp
  then have "(of_int m :: rat) \<le> of_int (2 ^ 53 - 1)" by (rule of_int_le_iff [THEN iffD2])
  then have "(of_int m :: rat) \<le> 9007199254740991" by simp
  then have "of_int m * pow2 q \<le> 9007199254740991 * pow2 q"
    by (rule mult_right_mono) simp
  also have "\<dots> \<le> 9007199254740991 * pow2 971"
    using mq(4) by (intro mult_left_mono pow2_mono) simp_all
  also have "\<dots> < overflowThreshold"
  proof -
    have "pow2 1024 = pow2 971 * pow2 53" using pow2_add [of 971 53] by simp
    moreover have "pow2 971 = pow2 970 * 2" using pow2_add [of 970 1] by (simp add: pow2_def)
    ultimately have "overflowThreshold = pow2 970 * 18014398509481983"
      by (simp add: overflowThreshold_def pow2_53 algebra_simps)
    moreover have "9007199254740991 * pow2 971 = pow2 970 * 18014398509481982"
      using \<open>pow2 971 = pow2 970 * 2\<close> by simp
    moreover have "pow2 970 * 18014398509481982 < pow2 970 * 18014398509481983"
      by (rule mult_strict_left_mono) simp_all
    ultimately show ?thesis by simp
  qed
  finally show ?thesis using mq(5) by simp
qed

lemma ulpExp_le:
  assumes x: "x < pow2 (q + 53)" and q: "- 1074 \<le> q" "q \<le> 971"
  shows "ulpExp x \<le> q"
proof (rule ccontr)
  assume "\<not> ulpExp x \<le> q"
  then have l: "q < ulpExp x" by simp
  have "pow2 (q + 53) \<le> pow2 1024" using q by (intro pow2_mono) simp
  then have "x < pow2 1024" using x by simp
  from ulpExp_props [OF this] l q have "pow2 (ulpExp x + 52) \<le> x" by simp
  moreover have "pow2 (q + 53) \<le> pow2 (ulpExp x + 52)" using l by (intro pow2_mono) simp
  ultimately show False using x by simp
qed

lemma roundMagnitude_le:
  assumes x: "0 \<le> x" "x \<le> y" and y: "isDouble y"
  shows "roundMagnitude x \<le> y"
proof -
  from y obtain m q where mq: "0 \<le> m" "m < 2 ^ 53" "- 1074 \<le> q" "q \<le> 971" "y = of_int m * pow2 q"
    by (auto simp add: isDouble_def)
  have "(of_int m :: rat) < of_int (2 ^ 53)" using mq(2) by (rule of_int_less_iff [THEN iffD2])
  then have "(of_int m :: rat) < pow2 53" by (simp add: pow2_53)
  then have "of_int m * pow2 q < pow2 53 * pow2 q" by (rule mult_strict_right_mono) simp
  then have "y < pow2 (q + 53)" using mq(5) pow2_add [of 53 q] by (simp add: add.commute)
  then have "x < pow2 (q + 53)" using x(2) by simp
  then have p: "ulpExp x \<le> q" using mq(3,4) by (rule ulpExp_le)
  let ?p = "ulpExp x"
  let ?k = "m * 2 ^ nat (q - ?p)"
  have "pow2 q = pow2 (q - ?p) * pow2 ?p" using pow2_add [of "q - ?p" ?p] by simp
  moreover have "pow2 (q - ?p) = of_int (2 ^ nat (q - ?p))" using p by (intro pow2_nat) simp
  ultimately have yk: "y = of_int ?k * pow2 ?p" using mq(5) by simp
  then have "y / pow2 ?p = of_int ?k" by simp
  moreover have "x / pow2 ?p \<le> y / pow2 ?p" using x(2) by (intro divide_right_mono) simp_all
  ultimately have "x / pow2 ?p \<le> of_int ?k" by simp
  then have "roundHalfEven (x / pow2 ?p) \<le> ?k" by (rule roundHalfEven_le)
  then have "(of_int (roundHalfEven (x / pow2 ?p)) :: rat) \<le> of_int ?k"
    by (rule of_int_le_iff [THEN iffD2])
  then have "of_int (roundHalfEven (x / pow2 ?p)) * pow2 ?p \<le> of_int ?k * pow2 ?p"
    by (rule mult_right_mono) simp
  then show ?thesis using yk by (simp add: roundMagnitude_def)
qed

lemma roundMagnitude_double:
  assumes x: "0 \<le> x" "x < overflowThreshold"
  shows "isDouble (roundMagnitude x)"
proof -
  let ?p = "ulpExp x"
  let ?n = "roundHalfEven (x / pow2 ?p)"
  have x1024: "x < pow2 1024" using x(2) overflowThreshold_less by simp
  note props = ulpExp_props [OF x1024]
  have n0: "0 \<le> ?n"
  proof -
    have "of_int 0 \<le> x / pow2 ?p" using x(1) by simp
    then show ?thesis by (rule roundHalfEven_ge)
  qed
  have "x < pow2 53 * pow2 ?p" using props pow2_add [of 53 ?p] by (simp add: add.commute)
  then have "x / pow2 ?p < pow2 53" by (simp add: pos_divide_less_eq)
  then have "x / pow2 ?p \<le> of_int (2 ^ 53)" by (simp add: pow2_53)
  then have n53: "?n \<le> 2 ^ 53" by (rule roundHalfEven_le)
  show ?thesis
  proof (cases "?n < 2 ^ 53")
    case True
    then show ?thesis using n0 props unfolding isDouble_def roundMagnitude_def by blast
  next
    case False
    then have n: "?n = 2 ^ 53" using n53 by simp
    have "?p \<noteq> 971"
    proof
      assume e: "?p = 971"
      have "pow2 1024 = pow2 53 * pow2 971" using pow2_add [of 53 971] by simp
      moreover have "pow2 971 = 2 * pow2 970" using pow2_add [of 1 970] by (simp add: pow2_def)
      ultimately have "overflowThreshold = (pow2 53 - 1 / 2) * pow2 971"
        by (simp add: overflowThreshold_def algebra_simps)
      then have "x < (pow2 53 - 1 / 2) * pow2 ?p" using x(2) e by simp
      then have "x / pow2 ?p < pow2 53 - 1 / 2" by (simp add: pos_divide_less_eq)
      then have "x / pow2 ?p < of_int (2 ^ 53) - 1 / 2" by (simp add: pow2_53)
      then have "?n < 2 ^ 53" by (rule roundHalfEven_less)
      then show False using n by simp
    qed
    then have p: "?p + 1 \<le> 971" "- 1074 \<le> ?p + 1" using props by simp_all
    have "pow2 (?p + 1) = 2 * pow2 ?p" using pow2_add [of 1 ?p] by (simp add: pow2_def add.commute)
    then have "roundMagnitude x = of_int (2 ^ 52) * pow2 (?p + 1)"
      using n by (simp add: roundMagnitude_def)
    moreover have "(0::int) \<le> 2 ^ 52" "(2::int) ^ 52 < 2 ^ 53" by simp_all
    ultimately show ?thesis using p unfolding isDouble_def by blast
  qed
qed

lemma roundMagnitude_int_exact:
  assumes "0 \<le> k" "k < 2 ^ 53"
  shows "roundMagnitude (of_int k) = of_int k"
proof -
  let ?p = "ulpExp (of_int k)"
  have "(of_int k :: rat) < of_int (2 ^ 53)" using assms(2) by (rule of_int_less_iff [THEN iffD2])
  then have "(of_int k :: rat) < pow2 53" by (simp add: pow2_53)
  then have p: "?p \<le> 0" by (rule ulpExp_small)
  have "pow2 (- ?p) = of_int (2 ^ nat (- ?p))" using p by (intro pow2_nat) simp
  moreover have "pow2 (- ?p) * pow2 ?p = 1" using pow2_add [of "- ?p" ?p] by (simp add: pow2_def)
  ultimately have i: "1 / pow2 ?p = of_int (2 ^ nat (- ?p))"
    by (simp add: field_simps)
  have "of_int k / pow2 ?p = of_int k * (1 / pow2 ?p)" by simp
  also have "\<dots> = of_int (k * 2 ^ nat (- ?p))" unfolding i by simp
  finally have "roundHalfEven (of_int k / pow2 ?p) = roundHalfEven (of_int (k * 2 ^ nat (- ?p)))"
    by (rule arg_cong)
  then have "roundHalfEven (of_int k / pow2 ?p) = k * 2 ^ nat (- ?p)"
    by (simp only: roundHalfEven_of_int)
  then have "roundMagnitude (of_int k) = of_int (k * 2 ^ nat (- ?p)) * pow2 ?p"
    by (simp add: roundMagnitude_def)
  also have "\<dots> = of_int k * (of_int (2 ^ nat (- ?p)) * pow2 ?p)" by simp
  also have "\<dots> = of_int k" using i by (simp add: field_simps)
  finally show ?thesis .
qed

lemma roundMagnitude_int_large:
  assumes "2 ^ 53 \<le> k" "of_int k < pow2 1024"
  shows "\<exists>r. 0 < r \<and> roundMagnitude (of_int k) = of_int r"
proof -
  let ?x = "of_int k :: rat"
  let ?p = "ulpExp ?x"
  let ?n = "roundHalfEven (?x / pow2 ?p)"
  have "(of_int (2 ^ 53) :: rat) \<le> of_int k" using assms(1) by (rule of_int_le_iff [THEN iffD2])
  then have "pow2 53 \<le> ?x" by (simp add: pow2_53)
  then have p: "1 \<le> ?p" by (rule ulpExp_large)
  from ulpExp_props [OF assms(2)] p have "pow2 (?p + 52) \<le> ?x" by simp
  then have "pow2 52 * pow2 ?p \<le> ?x" using pow2_add [of 52 ?p] by (simp add: add.commute)
  then have "pow2 52 \<le> ?x / pow2 ?p" by (simp add: pos_le_divide_eq)
  moreover have "pow2 52 = of_int (2 ^ 52)" by (simp add: pow2_def)
  ultimately have "of_int (2 ^ 52) \<le> ?x / pow2 ?p" by simp
  then have "2 ^ 52 \<le> ?n" by (rule roundHalfEven_ge)
  then have n: "0 < ?n" by simp
  have "pow2 ?p = of_int (2 ^ nat ?p)" using p by (intro pow2_nat) simp
  then have "roundMagnitude ?x = of_int (?n * 2 ^ nat ?p)" by (simp add: roundMagnitude_def)
  moreover have "0 < ?n * 2 ^ nat ?p" using n by simp
  ultimately show ?thesis by blast
qed

lemma roundMagnitude_near:
  assumes "0 \<le> x" "x \<le> 1"
  shows "\<bar>roundMagnitude x - x\<bar> \<le> pow2 (- 53)"
proof -
  let ?p = "ulpExp x"
  have "x < pow2 (- 52 + 53)" using assms(2) by (simp add: pow2_def)
  then have p: "?p \<le> - 52" by (rule ulpExp_le) simp_all
  have "roundMagnitude x - x = (of_int (roundHalfEven (x / pow2 ?p)) - x / pow2 ?p) * pow2 ?p"
    by (simp add: roundMagnitude_def algebra_simps)
  then have "\<bar>roundMagnitude x - x\<bar> = \<bar>of_int (roundHalfEven (x / pow2 ?p)) - x / pow2 ?p\<bar> * pow2 ?p"
    by (simp add: abs_mult)
  also have "\<dots> \<le> 1 / 2 * pow2 ?p"
    using roundHalfEven_near [of "x / pow2 ?p"] by (intro mult_right_mono) simp_all
  also have "\<dots> \<le> 1 / 2 * pow2 (- 52)"
    using p by (intro mult_left_mono pow2_mono) simp_all
  also have "\<dots> = pow2 (- 53)" by (simp add: pow2_def)
  finally show ?thesis .
qed

subsection \<open>Doubles and counts\<close>

lemma isDouble_0 [simp]: "isDouble 0"
  unfolding isDouble_def by (rule exI [of _ 0], rule exI [of _ 0]) simp

lemma isDouble_small: "0 \<le> k \<Longrightarrow> k < 2 ^ 53 \<Longrightarrow> isDouble (of_int k)"
  unfolding isDouble_def by (rule exI [of _ k], rule exI [of _ 0]) (simp add: pow2_def)

lemma roundDouble_0 [simp]: "roundDouble 0 = Finite 0"
  by (simp add: roundDouble_def)

lemma roundDouble_exact:
  assumes "0 \<le> k" "k < 2 ^ 53"
  shows "roundDouble (of_int k) = Finite (of_int k)"
proof (cases "k = 0")
  case True
  then show ?thesis by simp
next
  case False
  then have p: "0 < k" using assms(1) by simp
  have "(of_int k :: rat) < of_int (2 ^ 53)" using assms(2) by (rule of_int_less_iff [THEN iffD2])
  then have "(of_int k :: rat) < pow2 53" by (simp add: pow2_53)
  then have "(of_int k :: rat) < overflowThreshold" using threshold_large by simp
  then show ?thesis using p assms by (simp add: roundDouble_def roundMagnitude_int_exact)
qed

lemma roundDouble_exact_neg:
  assumes "0 < k" "k < 2 ^ 53"
  shows "roundDouble (- of_int k) = Finite (- of_int k)"
proof -
  have "(of_int k :: rat) < of_int (2 ^ 53)" using assms(2) by (rule of_int_less_iff [THEN iffD2])
  then have "(of_int k :: rat) < pow2 53" by (simp add: pow2_53)
  then have "(of_int k :: rat) < overflowThreshold" using threshold_large by simp
  then show ?thesis using assms by (simp add: roundDouble_def roundMagnitude_int_exact)
qed

lemma roundDouble_numeral:
  "numeral k < (9007199254740992 :: int) \<Longrightarrow> roundDouble (numeral k) = Finite (numeral k)"
  using roundDouble_exact [of "numeral k"] by simp

lemma roundDouble_neg_numeral:
  "numeral k < (9007199254740992 :: int) \<Longrightarrow> roundDouble (- numeral k) = Finite (- numeral k)"
  using roundDouble_exact_neg [of "numeral k"] by simp

lemma roundDouble_1 [simp]: "roundDouble 1 = Finite 1"
  using roundDouble_exact [of 1] by simp

text \<open>Rounding a non-negative rational below a double stays below it.\<close>

lemma roundDouble_le:
  assumes "0 \<le> x" "x \<le> y" "isDouble y"
  shows "\<exists>r. roundDouble x = Finite r \<and> 0 \<le> r \<and> r \<le> y \<and> isDouble r"
proof (cases "x = 0")
  case True
  then show ?thesis using assms by simp
next
  case False
  then have p: "0 < x" using assms(1) by simp
  have t: "x < overflowThreshold" using isDouble_less [OF assms(3)] assms(2) by simp
  then have "roundDouble x = Finite (roundMagnitude x)" using p by (simp add: roundDouble_def)
  moreover have "0 \<le> roundMagnitude x" using assms(1) by (rule roundMagnitude_nonneg)
  moreover have "roundMagnitude x \<le> y" using assms by (rule roundMagnitude_le)
  moreover have "isDouble (roundMagnitude x)" using assms(1) t by (rule roundMagnitude_double)
  ultimately show ?thesis by simp
qed

text \<open>Rounding a non-negative integer gives a count, and a positive one stays positive.\<close>

lemma roundDouble_int:
  assumes "0 \<le> k"
  shows "isCount (roundDouble (of_int k)) \<and> (0 < k \<longrightarrow> roundDouble (of_int k) \<noteq> Finite 0)"
proof (cases "k < 2 ^ 53")
  case True
  then have "roundDouble (of_int k) = Finite (of_int k)" using assms by (simp add: roundDouble_exact)
  moreover have "isDouble (of_int k)" using assms True by (rule isDouble_small)
  ultimately show ?thesis using assms by (auto simp add: isCount_def)
next
  case False
  then have big: "2 ^ 53 \<le> k" by simp
  then have pos: "(0::rat) < of_int k" by simp
  show ?thesis
  proof (cases "overflowThreshold \<le> of_int k")
    case True
    then show ?thesis using pos by (simp add: roundDouble_def isCount_def)
  next
    case False
    then have t: "of_int k < overflowThreshold" by simp
    then have "of_int k < pow2 1024" using overflowThreshold_less by simp
    from roundMagnitude_int_large [OF big this]
    obtain r where r: "0 < r" "roundMagnitude (of_int k) = of_int r" by blast
    have "isDouble (roundMagnitude (of_int k))"
      using t pos by (intro roundMagnitude_double) simp_all
    then have "isDouble (of_int r)" using r(2) by simp
    moreover have "roundDouble (of_int k) = Finite (of_int r)"
      using t pos r(2) by (simp add: roundDouble_def)
    ultimately show ?thesis using r(1) unfolding isCount_def
      by (metis JsNumber.inject less_imp_le of_int_0_eq_iff less_irrefl)
  qed
qed

lemma isCount_whole: "isCount v \<Longrightarrow> isWhole v"
  by (auto simp add: isCount_def isWhole_def)

lemma isCount_cases:
  assumes "isCount v"
  obtains "v = PosInfinity" | "v = Finite 0"
    | n where "1 \<le> n" "v = Finite (of_int n)" "isDouble (of_int n)"
proof -
  from assms consider "v = PosInfinity" | n where "0 \<le> n" "v = Finite (of_int n)" "isDouble (of_int n)"
    by (auto simp add: isCount_def)
  then show ?thesis
  proof cases
    case 1
    then show ?thesis using that by simp
  next
    case (2 n)
    show ?thesis
    proof (cases "n = 0")
      case True
      then show ?thesis using 2 that by simp
    next
      case False
      then have "1 \<le> n" using 2(1) by simp
      then show ?thesis using 2 that by simp
    qed
  qed
qed

subsection \<open>The arithmetic of the timer on counts\<close>

lemma jsLess_0_count: "isCount v \<Longrightarrow> jsLess (Finite 0) v \<longleftrightarrow> v \<noteq> Finite 0"
  by (erule isCount_cases) (simp_all add: jsLess_def)

lemma jsLessEq_refl_count: "isCount v \<Longrightarrow> jsLessEq v v"
  by (auto simp add: isCount_def jsLessEq_def)

lemma jsLessEq_1: "1 \<le> n \<Longrightarrow> jsLessEq (Finite 1) (Finite (of_int n))"
proof -
  assume "1 \<le> n"
  then have "(1::rat) \<le> of_int n" by simp
  then show ?thesis by (auto simp add: jsLessEq_def jsLess_def)
qed

lemma durationOk_truthy:
  assumes "isCount v" "truthy v"
  shows "durationOk v"
  using assms(1)
proof (cases rule: isCount_cases)
  case 1
  then show ?thesis using assms(1) by (simp add: durationOk_def jsLessEq_def jsLess_def)
next
  case 2
  then show ?thesis using assms(2) by (simp add: truthy_def)
next
  case (3 n)
  then show ?thesis using assms(1) by (simp add: durationOk_def jsLessEq_1)
qed

text \<open>
  One second off a positive count: again a count, not above the old one; exactly one less
  up to \<open>2^53\<close>; and an infinite time left stays infinite.
\<close>

lemma tick_count:
  assumes v: "isCount v" and p: "jsLess (Finite 0) v"
  shows "isCount (jsSub v (Finite 1)) \<and> jsLessEq (jsSub v (Finite 1)) v"
proof -
  from v p consider "v = PosInfinity" | n where "1 \<le> n" "v = Finite (of_int n)" "isDouble (of_int n)"
    by (cases rule: isCount_cases) (simp_all add: jsLess_def)
  then show ?thesis
  proof cases
    case 1
    then show ?thesis by (simp add: jsSub_def jsAdd_def jsNeg_def isCount_def jsLessEq_def)
  next
    case (2 n)
    have e: "jsSub v (Finite 1) = roundDouble (of_int (n - 1))"
      using 2(2) by (simp add: jsSub_def jsAdd_def jsNeg_def)
    have n1: "0 \<le> n - 1" using 2(1) by simp
    have c: "isCount (roundDouble (of_int (n - 1)))" using roundDouble_int [OF n1] by simp
    have "(0::rat) \<le> of_int (n - 1)" "(of_int (n - 1) :: rat) \<le> of_int n" using 2(1) by simp_all
    from roundDouble_le [OF this 2(3)]
    obtain r where r: "roundDouble (of_int (n - 1)) = Finite r" "r \<le> of_int n" by blast
    then have "jsLessEq (roundDouble (of_int (n - 1))) (Finite (of_int n))"
      by (auto simp add: jsLessEq_def jsLess_def)
    then show ?thesis using c e 2(2) by simp
  qed
qed

lemma tick_exact:
  assumes "1 \<le> n" "n \<le> 2 ^ 53"
  shows "jsSub (Finite (of_int n)) (Finite 1) = Finite (of_int (n - 1))"
proof -
  have "jsSub (Finite (of_int n)) (Finite 1) = roundDouble (of_int (n - 1))"
    by (simp add: jsSub_def jsAdd_def jsNeg_def)
  also have "\<dots> = Finite (of_int (n - 1))" using assms by (intro roundDouble_exact) simp_all
  finally show ?thesis .
qed

lemma jsLessEq_trans_count:
  "jsLessEq a b \<Longrightarrow> jsLessEq b c \<Longrightarrow> jsLessEq a c"
  by (cases a; cases b; cases c) (auto simp add: jsLessEq_def jsLess_def)

subsection \<open>What the modal computes\<close>

lemma orZero_whole: "entryOk e \<Longrightarrow> isWhole (orZero e)"
  by (cases e) (auto simp add: entryOk_def orZero_def truthy_def isWhole_def)

lemma jsMul_60_count: "isWhole v \<Longrightarrow> isCount (jsMul v (Finite 60))"
proof -
  assume "isWhole v"
  then consider "v = PosInfinity" | n where "0 \<le> n" "v = Finite (of_int n)"
    by (auto simp add: isWhole_def)
  then show ?thesis
  proof cases
    case 1
    then show ?thesis by (simp add: jsMul_def isCount_def isNegative_def)
  next
    case (2 n)
    then have "jsMul v (Finite 60) = roundDouble (of_int (n * 60))" by (simp add: jsMul_def)
    moreover have "0 \<le> n * 60" using 2(1) by simp
    ultimately show ?thesis using roundDouble_int [of "n * 60"] by simp
  qed
qed

lemma jsAdd_count: "isCount a \<Longrightarrow> isWhole b \<Longrightarrow> isCount (jsAdd a b)"
proof -
  assume a: "isCount a" and b: "isWhole b"
  from a consider "a = PosInfinity" | m where "0 \<le> m" "a = Finite (of_int m)"
    by (auto simp add: isCount_def)
  then show ?thesis
  proof cases
    case 1
    then show ?thesis using b by (auto simp add: jsAdd_def isCount_def isWhole_def)
  next
    case (2 m)
    from b consider "b = PosInfinity" | n where "0 \<le> n" "b = Finite (of_int n)"
      by (auto simp add: isWhole_def)
    then show ?thesis
    proof cases
      case 1
      then show ?thesis using 2 by (simp add: jsAdd_def isCount_def)
    next
      case (2 n)
      then have "jsAdd a b = roundDouble (of_int (m + n))"
        using \<open>a = Finite (of_int m)\<close> by (simp add: jsAdd_def)
      moreover have "0 \<le> m + n" using 2(1) \<open>0 \<le> m\<close> by simp
      ultimately show ?thesis using roundDouble_int [of "m + n"] by simp
    qed
  qed
qed

lemma total_count: "minSecOk ms \<Longrightarrow> isCount (total ms)"
  by (simp add: minSecOk_def total_def jsAdd_count jsMul_60_count orZero_whole)

lemma DEFAULT_SETTINGS_eq:
  "DEFAULT_SETTINGS = \<lparr>pomodoro = Finite 1500, shortBreak = Finite 300, longBreak = Finite 900\<rparr>"
  by (simp add: DEFAULT_SETTINGS_def jsMul_def roundDouble_numeral)

lemma durationOk_numeral:
  "numeral k < (9007199254740992 :: int) \<Longrightarrow> durationOk (Finite (numeral k))"
proof -
  assume "numeral k < (9007199254740992 :: int)"
  then have "isDouble (of_int (numeral k))" by (intro isDouble_small) simp_all
  then have "isCount (Finite (numeral k))"
    unfolding isCount_def by (intro disjI2 exI [of _ "numeral k"]) simp
  moreover have "jsLessEq (Finite 1) (Finite (of_int (numeral k)))"
    by (intro jsLessEq_1) simp
  ultimately show ?thesis by (simp add: durationOk_def)
qed

lemma finalSeconds_ok: "minSecOk ms \<Longrightarrow> durationOk d \<Longrightarrow> durationOk (finalSeconds ms d)"
  by (simp add: finalSeconds_def total_count durationOk_truthy)

lemma handleSave_ok: "localOk l \<Longrightarrow> settingsOk (handleSave l)"
  by (simp add: localOk_def settingsOk_def handleSave_def finalSeconds_ok DEFAULT_SETTINGS_eq
      durationOk_numeral)

lemma toMinSec_ok: "isCount x \<Longrightarrow> minSecOk (toMinSec x)"
proof -
  assume "isCount x"
  then consider "x = PosInfinity" | n where "0 \<le> n" "x = Finite (of_int n)"
    by (auto simp add: isCount_def)
  then show ?thesis
  proof cases
    case 1
    then show ?thesis
      by (simp add: toMinSec_def minSecOk_def entryOk_def jsDiv_def jsFloor_def jsRem_def
          isNegative_def isWhole_def)
  next
    case (2 n)
    have "(0::rat) \<le> of_int n / 60" using 2(1) by simp
    then have q: "(0::rat) \<le> rat_of_int n / 60" .
    have d: "jsDiv x (Finite 60) = roundDouble (of_int n / 60)" using 2(2) by (simp add: jsDiv_def)
    have m: "isWhole (jsFloor (jsDiv x (Finite 60)))"
    proof (cases "of_int n / 60 = (0::rat)")
      case True
      then show ?thesis unfolding d by (simp add: jsFloor_def isWhole_def)
    next
      case False
      then have pos: "(0::rat) < of_int n / 60" using q by simp
      show ?thesis
      proof (cases "overflowThreshold \<le> of_int n / 60")
        case True
        then show ?thesis unfolding d using pos by (simp add: roundDouble_def jsFloor_def isWhole_def)
      next
        case False
        then have "roundDouble (of_int n / 60) = Finite (roundMagnitude (of_int n / 60))"
          using pos by (simp add: roundDouble_def)
        moreover have "0 \<le> roundMagnitude (of_int n / 60)" using q by (rule roundMagnitude_nonneg)
        ultimately show ?thesis unfolding d
          by (auto simp add: jsFloor_def isWhole_def intro!: exI [of _ "\<lfloor>roundMagnitude (of_int n / 60)\<rfloor>"])
      qed
    qed
    have "jsTrunc (of_int n / 60) = n div 60"
      using q by (simp add: jsTrunc_def floor_divide_of_int_eq [of n 60, where ?'a = rat, simplified])
    then have "jsRem x (Finite 60) = Finite (of_int (n - 60 * (n div 60)))"
      using 2(2) by (simp add: jsRem_def)
    moreover have "0 \<le> n - 60 * (n div 60)" using 2(1)
      by (simp add: minus_mult_div_eq_mod)
    ultimately have s: "isWhole (jsRem x (Finite 60))" unfolding isWhole_def by blast
    show ?thesis using m s by (simp add: toMinSec_def minSecOk_def entryOk_def)
  qed
qed

lemma initLocal_ok: "settingsOk st \<Longrightarrow> localOk (initLocal st)"
  by (simp add: localOk_def settingsOk_def durationOk_def initLocal_def toMinSec_ok)

lemma setField_ok: "minSecOk ms \<Longrightarrow> entryOk e \<Longrightarrow> minSecOk (setField f e ms)"
  by (cases f) (simp_all add: minSecOk_def setField_def)

lemma localOk_get: "localOk l \<Longrightarrow> minSecOk (get l k)"
  by (cases k) (simp_all add: localOk_def)

lemma localOk_put: "localOk l \<Longrightarrow> minSecOk ms \<Longrightarrow> localOk (put k ms l)"
  by (cases k) (simp_all add: localOk_def)

lemma parseInt_cases: "parseInt v = NaN \<or> (\<exists>k. parseInt v = roundDouble (of_int k))"
  unfolding parseInt_def Let_def by (metis (full_types))

lemma roundDouble_nonneg_int:
  assumes "jsLessEq (Finite 0) (roundDouble (of_int k))"
  shows "isWhole (roundDouble (of_int k))"
proof (cases "0 \<le> k")
  case True
  then show ?thesis using roundDouble_int [of k] by (simp add: isCount_whole)
next
  case False
  then have n: "of_int k < (0::rat)" by simp
  have "0 \<le> roundMagnitude (- of_int k)" using n by (intro roundMagnitude_nonneg) simp
  then have "roundDouble (of_int k) = NegInfinity
    \<or> (\<exists>r. roundDouble (of_int k) = Finite (- r) \<and> 0 \<le> r)"
    using n by (auto simp add: roundDouble_def)
  then have "roundDouble (of_int k) = Finite 0"
    using assms by (auto simp add: jsLessEq_def jsLess_def)
  then show ?thesis by (simp add: isWhole_def)
qed

lemma handleChange_ok: "localOk l \<Longrightarrow> localOk (handleChange k f v l)"
proof -
  assume l: "localOk l"
  have "entryOk (Num (parseInt v))" if "parseInt v \<noteq> NaN" "jsLessEq (Finite 0) (parseInt v)"
    using that parseInt_cases [of v] roundDouble_nonneg_int by (auto simp add: entryOk_def)
  then show ?thesis using l
    by (auto simp add: handleChange_def entryOk_def intro!: localOk_put setField_ok localOk_get)
qed

section \<open>What one commit and the settling do\<close>

lemma clearTimer_eq: "clearTimer a = a\<lparr>intervals := cleared a\<rparr>"
  by (simp add: clearTimer_def cleared_def split: option.splits)

lemma tickEffect_run:
  "act \<Longrightarrow> jsLess (Finite 0) left \<Longrightarrow> tickEffect act left a =
     a\<lparr>timerRef := Some (nextId a), intervals := insert (nextId a) (intervals a),
       nextId := nextId a + 1\<rparr>"
  by (simp add: tickEffect_def)

lemma tickEffect_done:
  "act \<Longrightarrow> left = Finite 0 \<Longrightarrow> tickEffect act left a =
     a\<lparr>isActive := False, completed := completed a + 1,
       tonesPlayed := tonesPlayed a + (if soundEnabled a \<and> audioOk a then 1 else 0),
       errorsLogged := errorsLogged a + (if soundEnabled a \<and> \<not> audioOk a then 1 else 0),
       intervals := cleared a\<rparr>"
  by (simp add: tickEffect_def clearTimer_def playNotificationSound_def cleared_def jsLess_def
      split: option.splits)

lemma tickEffect_idle:
  "\<not> act \<Longrightarrow> tickEffect act left a = a"
  by (simp add: tickEffect_def)

lemma resetEffect_eq: "resetEffect a = a\<lparr>timeLeft := get (settings a) (mode a), isActive := False\<rparr>"
  by (simp add: resetEffect_def)

text \<open>One commit when only the first effect is due.\<close>

lemma commit_tick:
  assumes "deps2 a = Some (curDeps2 a)" "deps1 a \<noteq> Some (curDeps1 a)"
  shows "commit a = (tickEffect (isActive a) (timeLeft a)
                       (if deps1 a = None then a else clearTimer a))\<lparr>deps1 := Some (curDeps1 a)\<rparr>"
proof -
  have "deps2 ((tickEffect (isActive a) (timeLeft a)
                       (if deps1 a = None then a else clearTimer a))\<lparr>deps1 := Some (curDeps1 a)\<rparr>) = deps2 a"
    by (simp add: tickEffect_def clearTimer_def playNotificationSound_def split: option.splits)
  then show ?thesis using assms by (simp add: commit_def Let_def)
qed

lemma commit_reset:
  assumes "deps1 a = Some (curDeps1 a)" "deps2 a \<noteq> Some (curDeps2 a)"
  shows "commit a = a\<lparr>timeLeft := get (settings a) (mode a), isActive := False,
                       deps2 := Some (curDeps2 a)\<rparr>"
  using assms by (simp add: commit_def Let_def resetEffect_def)

lemma settle_id: "\<not> stale a \<Longrightarrow> settle a = a"
  by (simp add: settle.simps)

lemma settle_step: "stale a \<Longrightarrow> settle a = settle (commit a)"
  by (subst settle.simps) simp

lemma settle_not_stale: "\<not> stale (settle a)"
  by (induction a rule: settle.induct) (metis settle.simps)

lemma cleared_idem [simp]: "cleared (a\<lparr>intervals := cleared a\<rparr>) = cleared a"
  by (auto simp add: cleared_def split: option.splits)

lemma stale_iff: "stale a \<longleftrightarrow> deps1 a \<noteq> Some (curDeps1 a) \<or> deps2 a \<noteq> Some (curDeps2 a)"
  by (simp add: stale_def)

text \<open>The first effect alone is due, and the timer is not running.\<close>

lemma settle_idle:
  assumes d2: "deps2 x = Some (curDeps2 x)" and d1: "deps1 x = Some d" "d \<noteq> curDeps1 x"
    and idle: "\<not> isActive x"
  shows "settle x = x\<lparr>intervals := cleared x, deps1 := Some (curDeps1 x)\<rparr>"
proof -
  have c: "commit x = x\<lparr>intervals := cleared x, deps1 := Some (curDeps1 x)\<rparr>"
    using d2 d1 idle by (simp add: commit_tick tickEffect_idle clearTimer_eq)
  have "\<not> stale (commit x)"
    using d2 by (simp add: c stale_iff curDeps1_def curDeps2_def)
  moreover have "stale x" using d1 by (simp add: stale_iff)
  ultimately show ?thesis by (simp add: settle_step settle_id c)
qed

text \<open>The first effect alone is due, and the timer runs with time left.\<close>

lemma settle_run:
  assumes d2: "deps2 x = Some (curDeps2 x)" and d1: "deps1 x = Some d" "d \<noteq> curDeps1 x"
    and run: "isActive x" "jsLess (Finite 0) (timeLeft x)"
  shows "settle x = x\<lparr>timerRef := Some (nextId x), intervals := insert (nextId x) (cleared x),
                       nextId := nextId x + 1, deps1 := Some (curDeps1 x)\<rparr>"
proof -
  have c: "commit x = x\<lparr>timerRef := Some (nextId x), intervals := insert (nextId x) (cleared x),
                       nextId := nextId x + 1, deps1 := Some (curDeps1 x)\<rparr>"
    using d2 d1 run by (simp add: commit_tick tickEffect_run clearTimer_eq)
  have "\<not> stale (commit x)"
    using d2 by (simp add: c stale_iff curDeps1_def curDeps2_def)
  moreover have "stale x" using d1 by (simp add: stale_iff)
  ultimately show ?thesis by (simp add: settle_step settle_id c)
qed

text \<open>The first effect alone is due, and the timer runs with no time left.\<close>

lemma settle_done:
  assumes d2: "deps2 x = Some (curDeps2 x)" and d1: "deps1 x = Some d" "d \<noteq> curDeps1 x"
    and fin: "isActive x" "timeLeft x = Finite 0"
  shows "settle x = x\<lparr>isActive := False, completed := completed x + 1,
                       tonesPlayed := tonesPlayed x + (if soundEnabled x \<and> audioOk x then 1 else 0),
                       errorsLogged := errorsLogged x + (if soundEnabled x \<and> \<not> audioOk x then 1 else 0),
                       intervals := cleared x,
                       deps1 := Some (False, Finite 0, soundEnabled x)\<rparr>"
proof -
  let ?y = "x\<lparr>isActive := False, completed := completed x + 1,
                       tonesPlayed := tonesPlayed x + (if soundEnabled x \<and> audioOk x then 1 else 0),
                       errorsLogged := errorsLogged x + (if soundEnabled x \<and> \<not> audioOk x then 1 else 0),
                       intervals := cleared x,
                       deps1 := Some (curDeps1 x)\<rparr>"
  have c: "commit x = ?y"
    using d2 d1 fin by (simp add: commit_tick tickEffect_done clearTimer_eq)
  have sx: "stale x" using d1 by (simp add: stale_iff)
  have y2: "deps2 ?y = Some (curDeps2 ?y)" using d2 by (simp add: curDeps2_def)
  have y1: "deps1 ?y = Some (curDeps1 x)" by simp
  have yn: "curDeps1 x \<noteq> curDeps1 ?y" using fin by (simp add: curDeps1_def)
  have "settle ?y = ?y\<lparr>intervals := cleared ?y, deps1 := Some (curDeps1 ?y)\<rparr>"
    using y2 y1 yn by (rule settle_idle) simp
  also have "\<dots> = x\<lparr>isActive := False, completed := completed x + 1,
                       tonesPlayed := tonesPlayed x + (if soundEnabled x \<and> audioOk x then 1 else 0),
                       errorsLogged := errorsLogged x + (if soundEnabled x \<and> \<not> audioOk x then 1 else 0),
                       intervals := cleared x,
                       deps1 := Some (False, Finite 0, soundEnabled x)\<rparr>"
    using fin by (simp add: curDeps1_def cleared_def split: option.splits)
  finally show ?thesis using sx c by (simp add: settle_step)
qed

text \<open>The second effect alone is due.\<close>

lemma settle_reset:
  assumes d1: "deps1 x = Some (curDeps1 x)" and d2: "deps2 x \<noteq> Some (curDeps2 x)"
  shows "settle x =
           (if \<not> isActive x \<and> timeLeft x = get (settings x) (mode x)
            then x\<lparr>deps2 := Some (curDeps2 x)\<rparr>
            else x\<lparr>timeLeft := get (settings x) (mode x), isActive := False,
                   intervals := cleared x,
                   deps1 := Some (False, get (settings x) (mode x), soundEnabled x),
                   deps2 := Some (curDeps2 x)\<rparr>)"
proof -
  let ?y = "x\<lparr>timeLeft := get (settings x) (mode x), isActive := False,
                       deps2 := Some (curDeps2 x)\<rparr>"
  have c: "commit x = ?y" using d1 d2 by (rule commit_reset)
  have sx: "stale x" using d2 by (simp add: stale_iff)
  have y2: "deps2 ?y = Some (curDeps2 ?y)" by (simp add: curDeps2_def)
  show ?thesis
  proof (cases "\<not> isActive x \<and> timeLeft x = get (settings x) (mode x)")
    case True
    then have e: "?y = x\<lparr>deps2 := Some (curDeps2 x)\<rparr>" by simp
    have "\<not> stale ?y" using d1 True by (simp add: stale_iff curDeps1_def curDeps2_def)
    then show ?thesis using sx c True e by (simp add: settle_step settle_id)
  next
    case False
    have y1: "deps1 ?y = Some (curDeps1 x)" using d1 by simp
    have yn: "curDeps1 x \<noteq> curDeps1 ?y" using False by (auto simp add: curDeps1_def)
    have "settle ?y = ?y\<lparr>intervals := cleared ?y, deps1 := Some (curDeps1 ?y)\<rparr>"
      using y2 y1 yn by (rule settle_idle) simp
    also have "\<dots> = x\<lparr>timeLeft := get (settings x) (mode x), isActive := False,
                   intervals := cleared x,
                   deps1 := Some (False, get (settings x) (mode x), soundEnabled x),
                   deps2 := Some (curDeps2 x)\<rparr>"
      by (simp add: curDeps1_def cleared_def split: option.splits)
    finally have f: "settle ?y = x\<lparr>timeLeft := get (settings x) (mode x), isActive := False,
                   intervals := cleared x,
                   deps1 := Some (False, get (settings x) (mode x), soundEnabled x),
                   deps2 := Some (curDeps2 x)\<rparr>" .
    have "settle x = settle ?y" using sx c by (simp add: settle_step)
    with f False show ?thesis by auto
  qed
qed

lemma timerOk_cleared:
  "timerOk a \<Longrightarrow> timerRef x = timerRef a \<Longrightarrow> intervals x = intervals a \<Longrightarrow> cleared x = {}"
  by (auto simp add: timerOk_def cleared_def split: option.splits if_splits)

text \<open>
  After an event that leaves \<open>mode\<close> and \<open>settings\<close> alone: \<open>x\<close> is the state the handler
  leaves, \<open>a\<close> the consistent state before it.
\<close>

lemma settle_after:
  assumes a: "consistent a"
    and same: "deps1 x = deps1 a" "deps2 x = Some (curDeps2 x)"
      "timerRef x = timerRef a" "intervals x = intervals a" "nextId x = nextId a"
    and ok: "isCount (timeLeft x)" "jsLessEq (timeLeft x) (get (settings x) (mode x))"
      "settingsOk (settings x)" "modalOk x"
  shows "consistent (settle x)
    \<and> timeLeft (settle x) = timeLeft x
    \<and> isActive (settle x) = (isActive x \<and> timeLeft x \<noteq> Finite 0)
    \<and> completed (settle x) = completed x + (if isActive x \<and> timeLeft x = Finite 0 then 1 else 0)
    \<and> tonesPlayed (settle x) = tonesPlayed x
          + (if isActive x \<and> timeLeft x = Finite 0 \<and> soundEnabled x \<and> audioOk x then 1 else 0)
    \<and> errorsLogged (settle x) = errorsLogged x
          + (if isActive x \<and> timeLeft x = Finite 0 \<and> soundEnabled x \<and> \<not> audioOk x then 1 else 0)
    \<and> mode (settle x) = mode x \<and> settings (settle x) = settings x
    \<and> settingsId (settle x) = settingsId x \<and> modal (settle x) = modal x
    \<and> showSettings (settle x) = showSettings x
    \<and> soundEnabled (settle x) = soundEnabled x \<and> audioOk (settle x) = audioOk x"
proof -
  have t: "timerOk a" and d1a: "deps1 a = Some (curDeps1 a)"
    and pos: "isActive a \<longrightarrow> jsLess (Finite 0) (timeLeft a)"
    using a by (simp_all add: consistent_def)
  have cl: "cleared x = {}" using t same(3,4) by (rule timerOk_cleared)
  have d1: "deps1 x = Some (curDeps1 a)" using same(1) d1a by simp
  have nid: "0 < nextId x" using t same(5) by (simp add: timerOk_def)
  have z: "jsLess (Finite 0) (timeLeft x) \<longleftrightarrow> timeLeft x \<noteq> Finite 0"
    using ok(1) by (rule jsLess_0_count)
  show ?thesis
  proof (cases "curDeps1 a = curDeps1 x")
    case True
    then have eq: "isActive x = isActive a" "timeLeft x = timeLeft a"
      by (simp_all add: curDeps1_def)
    have "\<not> stale x" using d1 True same(2) by (simp add: stale_iff)
    then have s: "settle x = x" by (rule settle_id)
    have "timerOk x" using t same(3,4,5) eq by (auto simp add: timerOk_def split: option.splits)
    then have "consistent x"
      using d1 True same(2) ok eq pos by (simp add: consistent_def)
    then show ?thesis using s eq pos z by auto
  next
    case False
    show ?thesis
    proof (cases "isActive x")
      case idle: False
      have s: "settle x = x\<lparr>intervals := cleared x, deps1 := Some (curDeps1 x)\<rparr>"
        using same(2) d1 False idle by (rule settle_idle)
      have "timerOk (settle x)"
        using t same(3,5) idle by (auto simp add: s cl timerOk_def split: option.splits)
      then have "consistent (settle x)"
        using same(2) ok idle
        by (simp add: s cl consistent_def curDeps1_def curDeps2_def modalOk_def)
      then show ?thesis using idle by (simp add: s)
    next
      case act: True
      show ?thesis
      proof (cases "timeLeft x = Finite 0")
        case True
        have s: "settle x = x\<lparr>isActive := False, completed := completed x + 1,
                       tonesPlayed := tonesPlayed x + (if soundEnabled x \<and> audioOk x then 1 else 0),
                       errorsLogged := errorsLogged x + (if soundEnabled x \<and> \<not> audioOk x then 1 else 0),
                       intervals := cleared x,
                       deps1 := Some (False, Finite 0, soundEnabled x)\<rparr>"
          using same(2) d1 False act True by (rule settle_done)
        have "timerOk (x\<lparr>isActive := False, intervals := {}\<rparr>)"
          using t same(3,5) by (auto simp add: timerOk_def split: option.splits)
        then have "timerOk (settle x)" by (auto simp add: s cl timerOk_def split: option.splits)
        then have "consistent (settle x)"
          using same(2) ok True
          by (simp add: s consistent_def curDeps1_def curDeps2_def modalOk_def)
        then show ?thesis using act True by (simp add: s)
      next
        case nz: False
        then have p: "jsLess (Finite 0) (timeLeft x)" using z by simp
        have s: "settle x = x\<lparr>timerRef := Some (nextId x), intervals := insert (nextId x) (cleared x),
                       nextId := nextId x + 1, deps1 := Some (curDeps1 x)\<rparr>"
          using same(2) d1 False act p by (rule settle_run)
        have "timerOk (settle x)" using act nid by (auto simp add: s cl timerOk_def split: option.splits)
        then have "consistent (settle x)"
          using same(2) ok act p
          by (simp add: s consistent_def curDeps1_def curDeps2_def modalOk_def)
        then show ?thesis using act nz by (simp add: s)
      qed
    qed
  qed
qed

lemma settingsOk_get: "settingsOk st \<Longrightarrow> durationOk (get st k)"
  by (cases k) (simp_all add: settingsOk_def)

text \<open>After an event that changes \<open>mode\<close> or replaces \<open>settings\<close>, and nothing else.\<close>

lemma settle_after_reset:
  assumes a: "consistent a"
    and same: "deps1 x = deps1 a" "curDeps1 x = curDeps1 a" "deps2 x \<noteq> Some (curDeps2 x)"
      "timerRef x = timerRef a" "intervals x = intervals a" "nextId x = nextId a"
    and ok: "modalOk x"
  shows "(settingsOk (settings x) \<longrightarrow> consistent (settle x))
    \<and> timeLeft (settle x) = get (settings x) (mode x)
    \<and> \<not> isActive (settle x) \<and> intervals (settle x) = {}
    \<and> completed (settle x) = completed x
    \<and> tonesPlayed (settle x) = tonesPlayed x
    \<and> errorsLogged (settle x) = errorsLogged x
    \<and> mode (settle x) = mode x \<and> settings (settle x) = settings x
    \<and> settingsId (settle x) = settingsId x \<and> modal (settle x) = modal x
    \<and> showSettings (settle x) = showSettings x
    \<and> soundEnabled (settle x) = soundEnabled x \<and> audioOk (settle x) = audioOk x"
proof -
  have t: "timerOk a" and d1a: "deps1 a = Some (curDeps1 a)"
    using a by (simp_all add: consistent_def)
  have eq: "isActive x = isActive a" using same(2) by (simp add: curDeps1_def)
  have cl: "cleared x = {}" using t same(4,5) by (rule timerOk_cleared)
  have d1: "deps1 x = Some (curDeps1 x)" using same(1,2) d1a by simp
  have g: "settingsOk (settings x) \<Longrightarrow>
      isCount (get (settings x) (mode x))
      \<and> jsLessEq (get (settings x) (mode x)) (get (settings x) (mode x))"
    using settingsOk_get [of "settings x" "mode x"]
    by (simp add: durationOk_def jsLessEq_refl_count)
  have iv: "\<not> isActive x \<Longrightarrow> intervals x = {}"
    using t same(5) eq by (auto simp add: timerOk_def split: option.splits)
  note s = settle_reset [OF d1 same(3)]
  show ?thesis
  proof (cases "\<not> isActive x \<and> timeLeft x = get (settings x) (mode x)")
    case True
    then have s': "settle x = x\<lparr>deps2 := Some (curDeps2 x)\<rparr>" using s by simp
    have "timerOk (settle x)"
      using t same(4,5,6) eq by (auto simp add: s' timerOk_def split: option.splits)
    then have "settingsOk (settings x) \<Longrightarrow> consistent (settle x)"
      using d1 ok True g
      by (simp add: s' consistent_def curDeps1_def curDeps2_def modalOk_def)
    then show ?thesis using True iv by (auto simp add: s')
  next
    case False
    then have s': "settle x = x\<lparr>timeLeft := get (settings x) (mode x), isActive := False,
                   intervals := cleared x,
                   deps1 := Some (False, get (settings x) (mode x), soundEnabled x),
                   deps2 := Some (curDeps2 x)\<rparr>" using s by auto
    have "timerOk (settle x)"
      using t same(4,6) by (auto simp add: s' cl timerOk_def split: option.splits)
    then have "settingsOk (settings x) \<Longrightarrow> consistent (settle x)"
      using ok g
      by (simp add: s' consistent_def curDeps1_def curDeps2_def modalOk_def)
    then show ?thesis by (auto simp add: s' cl)
  qed
qed

section \<open>Every event keeps the state consistent\<close>

lemma init_eq:
  "init ok = (mount ok)\<lparr>deps1 := Some (False, Finite 1500, True), deps2 := Some (Pomodoro, 0)\<rparr>"
proof -
  have c: "commit (mount ok) = (mount ok)\<lparr>deps1 := Some (False, Finite 1500, True), deps2 := Some (Pomodoro, 0)\<rparr>"
    by (simp add: commit_def mount_def Let_def curDeps1_def curDeps2_def tickEffect_def
        resetEffect_def DEFAULT_SETTINGS_eq)
  have "stale (mount ok)" by (simp add: stale_def mount_def)
  moreover have "\<not> stale (commit (mount ok))"
    unfolding c by (simp add: stale_def mount_def curDeps1_def curDeps2_def DEFAULT_SETTINGS_eq)
  ultimately have "settle (mount ok) = commit (mount ok)" by (simp add: settle_step settle_id)
  then show ?thesis unfolding init_def c .
qed

lemma durationOk_count: "durationOk v \<Longrightarrow> isCount v \<and> jsLessEq v v"
  by (simp add: durationOk_def jsLessEq_refl_count)

lemma init_consistent: "consistent (init ok)"
proof -
  have "settingsOk DEFAULT_SETTINGS"
    by (simp add: settingsOk_def DEFAULT_SETTINGS_eq durationOk_numeral)
  moreover have "isCount (Finite 1500) \<and> jsLessEq (Finite 1500) (Finite 1500)"
    by (intro durationOk_count durationOk_numeral) simp
  ultimately show ?thesis
    by (simp add: init_eq mount_def consistent_def curDeps1_def curDeps2_def timerOk_def
        modalOk_def DEFAULT_SETTINGS_eq)
qed

lemma toggleTimer_facts:
  assumes a: "consistent a"
  shows "consistent (toggleTimer a)
    \<and> timeLeft (toggleTimer a) = timeLeft a
    \<and> isActive (toggleTimer a) = (\<not> isActive a \<and> timeLeft a \<noteq> Finite 0)
    \<and> completed (toggleTimer a)
          = completed a + (if \<not> isActive a \<and> timeLeft a = Finite 0 then 1 else 0)
    \<and> tonesPlayed (toggleTimer a) = tonesPlayed a
          + (if \<not> isActive a \<and> timeLeft a = Finite 0 \<and> soundEnabled a \<and> audioOk a then 1 else 0)
    \<and> errorsLogged (toggleTimer a) = errorsLogged a
          + (if \<not> isActive a \<and> timeLeft a = Finite 0 \<and> soundEnabled a \<and> \<not> audioOk a then 1 else 0)
    \<and> mode (toggleTimer a) = mode a \<and> settings (toggleTimer a) = settings a
    \<and> soundEnabled (toggleTimer a) = soundEnabled a \<and> audioOk (toggleTimer a) = audioOk a"
proof -
  let ?x = "a\<lparr>isActive := \<not> isActive a\<rparr>"
  have "deps1 ?x = deps1 a" "deps2 ?x = Some (curDeps2 ?x)" "timerRef ?x = timerRef a"
    "intervals ?x = intervals a" "nextId ?x = nextId a" "isCount (timeLeft ?x)"
    "jsLessEq (timeLeft ?x) (get (settings ?x) (mode ?x))" "settingsOk (settings ?x)" "modalOk ?x"
    using a by (simp_all add: consistent_def curDeps2_def modalOk_def)
  from settle_after [OF a this] show ?thesis by (simp add: toggleTimer_def)
qed

lemma resetTimer_facts:
  assumes a: "consistent a"
  shows "consistent (resetTimer a)
    \<and> timeLeft (resetTimer a) = get (settings a) (mode a)
    \<and> \<not> isActive (resetTimer a)
    \<and> completed (resetTimer a) = completed a
    \<and> tonesPlayed (resetTimer a) = tonesPlayed a
    \<and> errorsLogged (resetTimer a) = errorsLogged a
    \<and> mode (resetTimer a) = mode a \<and> settings (resetTimer a) = settings a"
proof -
  let ?x = "a\<lparr>isActive := False, timeLeft := get (settings a) (mode a)\<rparr>"
  have g: "isCount (get (settings a) (mode a))
      \<and> jsLessEq (get (settings a) (mode a)) (get (settings a) (mode a))"
    using a by (intro durationOk_count settingsOk_get) (simp add: consistent_def)
  have "deps1 ?x = deps1 a" "deps2 ?x = Some (curDeps2 ?x)" "timerRef ?x = timerRef a"
    "intervals ?x = intervals a" "nextId ?x = nextId a" "isCount (timeLeft ?x)"
    "jsLessEq (timeLeft ?x) (get (settings ?x) (mode ?x))" "settingsOk (settings ?x)" "modalOk ?x"
    using a g by (simp_all add: consistent_def curDeps2_def modalOk_def)
  from settle_after [OF a this] show ?thesis by (simp add: resetTimer_def)
qed

lemma live_interval:
  assumes a: "consistent a" and i: "i \<in> intervals a"
  shows "isActive a \<and> jsLess (Finite 0) (timeLeft a) \<and> timerRef a = Some i"
  using a i by (auto simp add: consistent_def timerOk_def split: option.splits if_splits)

lemma intervalFires_facts:
  assumes a: "consistent a" and i: "i \<in> intervals a"
  shows "consistent (intervalFires i a)
    \<and> timeLeft (intervalFires i a) = jsSub (timeLeft a) (Finite 1)
    \<and> isActive (intervalFires i a) = (jsSub (timeLeft a) (Finite 1) \<noteq> Finite 0)
    \<and> completed (intervalFires i a)
          = completed a + (if jsSub (timeLeft a) (Finite 1) = Finite 0 then 1 else 0)
    \<and> tonesPlayed (intervalFires i a) = tonesPlayed a
          + (if jsSub (timeLeft a) (Finite 1) = Finite 0 \<and> soundEnabled a \<and> audioOk a then 1 else 0)
    \<and> errorsLogged (intervalFires i a) = errorsLogged a
          + (if jsSub (timeLeft a) (Finite 1) = Finite 0 \<and> soundEnabled a \<and> \<not> audioOk a
             then 1 else 0)
    \<and> mode (intervalFires i a) = mode a \<and> settings (intervalFires i a) = settings a"
proof -
  let ?x = "a\<lparr>timeLeft := jsSub (timeLeft a) (Finite 1)\<rparr>"
  have l: "isActive a" "jsLess (Finite 0) (timeLeft a)" using live_interval [OF a i] by simp_all
  have c: "isCount (timeLeft a)" "jsLessEq (timeLeft a) (get (settings a) (mode a))"
    using a by (simp_all add: consistent_def)
  note t = tick_count [OF c(1) l(2)]
  have le: "jsLessEq (jsSub (timeLeft a) (Finite 1)) (get (settings a) (mode a))"
    using t c(2) by (blast intro: jsLessEq_trans_count)
  have "deps1 ?x = deps1 a" "deps2 ?x = Some (curDeps2 ?x)" "timerRef ?x = timerRef a"
    "intervals ?x = intervals a" "nextId ?x = nextId a" "isCount (timeLeft ?x)"
    "jsLessEq (timeLeft ?x) (get (settings ?x) (mode ?x))" "settingsOk (settings ?x)" "modalOk ?x"
    using a t le by (simp_all add: consistent_def curDeps2_def modalOk_def)
  from settle_after [OF a this] l i show ?thesis by (auto simp add: intervalFires_def)
qed

lemma unchanged_facts:
  assumes a: "consistent a"
    and x: "deps1 x = deps1 a" "deps2 x = deps2 a" "curDeps1 x = curDeps1 a" "curDeps2 x = curDeps2 a"
      "timerRef x = timerRef a" "intervals x = intervals a" "nextId x = nextId a"
      "settings x = settings a" "mode x = mode a" "modalOk x"
  shows "settle x = x \<and> consistent x"
proof -
  have e: "isActive x = isActive a" "timeLeft x = timeLeft a"
    using x(3) by (simp_all add: curDeps1_def)
  have "timerOk x" using a x e by (auto simp add: consistent_def timerOk_def split: option.splits)
  then have c: "consistent x" using a x e by (simp add: consistent_def)
  then have "\<not> stale x" by (simp add: consistent_def stale_iff)
  then show ?thesis using c by (simp add: settle_id)
qed

lemma toggleSound_facts:
  assumes a: "consistent a"
  shows "consistent (toggleSound a)
    \<and> timeLeft (toggleSound a) = timeLeft a
    \<and> isActive (toggleSound a) = isActive a
    \<and> completed (toggleSound a) = completed a
    \<and> tonesPlayed (toggleSound a) = tonesPlayed a
    \<and> errorsLogged (toggleSound a) = errorsLogged a
    \<and> soundEnabled (toggleSound a) = (\<not> soundEnabled a)
    \<and> mode (toggleSound a) = mode a \<and> settings (toggleSound a) = settings a"
proof -
  let ?x = "a\<lparr>soundEnabled := \<not> soundEnabled a\<rparr>"
  have p: "isActive a \<longrightarrow> timeLeft a \<noteq> Finite 0"
    using a by (auto simp add: consistent_def jsLess_def)
  have "deps1 ?x = deps1 a" "deps2 ?x = Some (curDeps2 ?x)" "timerRef ?x = timerRef a"
    "intervals ?x = intervals a" "nextId ?x = nextId a" "isCount (timeLeft ?x)"
    "jsLessEq (timeLeft ?x) (get (settings ?x) (mode ?x))" "settingsOk (settings ?x)" "modalOk ?x"
    using a by (simp_all add: consistent_def curDeps2_def modalOk_def)
  from settle_after [OF a this] p show ?thesis by (auto simp add: toggleSound_def)
qed

lemma setMode_same: "consistent a \<Longrightarrow> setMode (mode a) a = a"
  by (simp add: setMode_def settle_id stale_iff consistent_def)

lemma setMode_facts:
  assumes a: "consistent a" and m: "m \<noteq> mode a"
  shows "consistent (setMode m a)
    \<and> timeLeft (setMode m a) = get (settings a) m
    \<and> \<not> isActive (setMode m a) \<and> intervals (setMode m a) = {}
    \<and> completed (setMode m a) = completed a
    \<and> tonesPlayed (setMode m a) = tonesPlayed a
    \<and> errorsLogged (setMode m a) = errorsLogged a
    \<and> mode (setMode m a) = m \<and> settings (setMode m a) = settings a"
proof -
  let ?x = "a\<lparr>mode := m\<rparr>"
  have "deps1 ?x = deps1 a" "curDeps1 ?x = curDeps1 a" "deps2 ?x \<noteq> Some (curDeps2 ?x)"
    "timerRef ?x = timerRef a" "intervals ?x = intervals a" "nextId ?x = nextId a" "modalOk ?x"
    using a m by (simp_all add: consistent_def curDeps1_def curDeps2_def modalOk_def)
  moreover have "settingsOk (settings ?x)" using a by (simp add: consistent_def)
  ultimately show ?thesis using settle_after_reset [OF a, of ?x]
    by (simp add: setMode_def)
qed

lemma handleSaveSettings_facts:
  assumes a: "consistent a"
  shows "(settingsOk c \<longrightarrow> consistent (handleSaveSettings c a))
    \<and> timeLeft (handleSaveSettings c a) = get c (mode a)
    \<and> \<not> isActive (handleSaveSettings c a) \<and> intervals (handleSaveSettings c a) = {}
    \<and> completed (handleSaveSettings c a) = completed a
    \<and> tonesPlayed (handleSaveSettings c a) = tonesPlayed a
    \<and> errorsLogged (handleSaveSettings c a) = errorsLogged a
    \<and> mode (handleSaveSettings c a) = mode a \<and> settings (handleSaveSettings c a) = c
    \<and> soundEnabled (handleSaveSettings c a) = soundEnabled a
    \<and> audioOk (handleSaveSettings c a) = audioOk a"
proof -
  let ?x = "a\<lparr>settings := c, settingsId := settingsId a + 1, showSettings := False\<rparr>"
  have "deps1 ?x = deps1 a" "curDeps1 ?x = curDeps1 a" "deps2 ?x \<noteq> Some (curDeps2 ?x)"
    "timerRef ?x = timerRef a" "intervals ?x = intervals a" "nextId ?x = nextId a" "modalOk ?x"
    using a by (simp_all add: consistent_def curDeps1_def curDeps2_def modalOk_def)
  from settle_after_reset [OF a this] show ?thesis
    by (simp add: handleSaveSettings_def)
qed

lemma modal_event:
  assumes a: "consistent a" and l: "case l of None \<Rightarrow> True | Some l' \<Rightarrow> localOk l'"
  shows "settle (a\<lparr>showSettings := b, modal := l\<rparr>) = a\<lparr>showSettings := b, modal := l\<rparr>
    \<and> consistent (a\<lparr>showSettings := b, modal := l\<rparr>)"
  using a l by (intro unchanged_facts) (simp_all add: curDeps1_def curDeps2_def modalOk_def)

lemma openSettings_eq:
  assumes a: "consistent a"
  shows "openSettings a = a\<lparr>showSettings := True,
            modal := (case modal a of None \<Rightarrow> Some (initLocal (settings a)) | Some l \<Rightarrow> Some l)\<rparr>
    \<and> consistent (openSettings a)"
proof -
  have "case (case modal a of None \<Rightarrow> Some (initLocal (settings a)) | Some l \<Rightarrow> Some l) of
          None \<Rightarrow> True | Some l' \<Rightarrow> localOk l'"
    using a by (auto simp add: consistent_def modalOk_def initLocal_ok split: option.splits)
  from modal_event [OF a this, of True] show ?thesis by (simp add: openSettings_def)
qed

lemma changeField_eq:
  assumes a: "consistent a" and m: "modal a = Some l"
  shows "changeField k f v a = a\<lparr>modal := Some (handleChange k f v l)\<rparr>
    \<and> consistent (changeField k f v a)"
proof -
  have "localOk l" using a m by (simp add: consistent_def modalOk_def)
  then have "localOk (handleChange k f v l)" by (rule handleChange_ok)
  then show ?thesis
    using modal_event [OF a, of "Some (handleChange k f v l)" "showSettings a"] m
    by (simp add: changeField_def)
qed

lemma changeField_consistent: "consistent a \<Longrightarrow> consistent (changeField k f v a)"
proof (cases "modal a")
  case None
  assume "consistent a"
  then show ?thesis using None by (simp add: changeField_def)
next
  case (Some l)
  assume "consistent a"
  then show ?thesis using Some by (rule changeField_eq [THEN conjunct2])
qed

lemma closeSettings_consistent: "consistent a \<Longrightarrow> consistent (closeSettings a)"
proof -
  assume a: "consistent a"
  then have "case modal a of None \<Rightarrow> True | Some l' \<Rightarrow> localOk l'"
    by (simp add: consistent_def modalOk_def)
  from modal_event [OF a this, of False] show ?thesis by (simp add: closeSettings_def)
qed

lemma exitComplete_consistent: "consistent a \<Longrightarrow> consistent (exitComplete a)"
  using modal_event [of a None "showSettings a"] by (simp add: exitComplete_def)

lemma saveClicked_consistent: "consistent a \<Longrightarrow> consistent (saveClicked a)"
proof (cases "modal a")
  case None
  assume "consistent a"
  then show ?thesis using None by (simp add: saveClicked_def)
next
  case (Some l)
  assume a: "consistent a"
  then have "localOk l" using Some by (simp add: consistent_def modalOk_def)
  then have "settingsOk (handleSave l)" by (rule handleSave_ok)
  then show ?thesis
    using handleSaveSettings_facts [OF a, of "handleSave l"] Some
    by (simp add: saveClicked_def)
qed

lemma audio_consistent: "consistent a \<Longrightarrow> consistent (a\<lparr>audioOk := ok\<rparr>)"
  by (rule unchanged_facts [THEN conjunct2])
     (simp_all add: curDeps1_def curDeps2_def modalOk_def consistent_def)

lemma intervalFires_consistent: "consistent a \<Longrightarrow> consistent (intervalFires i a)"
  using intervalFires_facts [of a i] by (cases "i \<in> intervals a") (simp_all add: intervalFires_def)

lemma setMode_consistent: "consistent a \<Longrightarrow> consistent (setMode m a)"
  using setMode_facts [of a m] setMode_same [of a] by (cases "m = mode a") simp_all

text \<open>Every reachable state is consistent.\<close>

lemma reachable_consistent: "reachable a \<Longrightarrow> consistent a"
proof (induction rule: reachable.induct)
  case (r_init ok)
  show ?case by (rule init_consistent)
next
  case (r_setMode a m)
  then show ?case by (simp add: setMode_consistent)
next
  case (r_toggleTimer a)
  then show ?case by (simp add: toggleTimer_facts)
next
  case (r_resetTimer a)
  then show ?case by (simp add: resetTimer_facts)
next
  case (r_interval a i)
  then show ?case by (simp add: intervalFires_consistent)
next
  case (r_toggleSound a)
  then show ?case by (simp add: toggleSound_facts)
next
  case (r_openSettings a)
  then show ?case by (simp add: openSettings_eq [THEN conjunct2])
next
  case (r_changeField a k f v)
  then show ?case by (simp add: changeField_consistent)
next
  case (r_saveClicked a)
  then show ?case by (simp add: saveClicked_consistent)
next
  case (r_closeSettings a)
  then show ?case by (simp add: closeSettings_consistent)
next
  case (r_exitComplete a)
  then show ?case by (simp add: exitComplete_consistent)
next
  case (r_audio a ok)
  then show ?case by (simp add: audio_consistent)
qed

subsection \<open>Ticks\<close>

lemma reachable_tick: "reachable a \<Longrightarrow> reachable (tick a)"
  by (simp add: tick_def r_interval split: option.splits)

lemma tick_stopped: "consistent a \<Longrightarrow> \<not> isActive a \<Longrightarrow> tick a = a"
  by (auto simp add: tick_def intervalFires_def consistent_def timerOk_def split: option.splits)

lemma tick_running:
  assumes a: "consistent a" and r: "isActive a"
  shows "\<exists>i. i \<in> intervals a \<and> tick a = intervalFires i a"
  using a r by (auto simp add: tick_def consistent_def timerOk_def split: option.splits)

lemma tick_facts:
  assumes a: "consistent a" and r: "isActive a"
  shows "consistent (tick a)
    \<and> timeLeft (tick a) = jsSub (timeLeft a) (Finite 1)
    \<and> isActive (tick a) = (jsSub (timeLeft a) (Finite 1) \<noteq> Finite 0)
    \<and> completed (tick a)
          = completed a + (if jsSub (timeLeft a) (Finite 1) = Finite 0 then 1 else 0)
    \<and> tonesPlayed (tick a) = tonesPlayed a
          + (if jsSub (timeLeft a) (Finite 1) = Finite 0 \<and> soundEnabled a \<and> audioOk a then 1 else 0)
    \<and> errorsLogged (tick a) = errorsLogged a
          + (if jsSub (timeLeft a) (Finite 1) = Finite 0 \<and> soundEnabled a \<and> \<not> audioOk a
             then 1 else 0)
    \<and> mode (tick a) = mode a \<and> settings (tick a) = settings a"
proof -
  from tick_running [OF a r] obtain i where i: "i \<in> intervals a" "tick a = intervalFires i a"
    by blast
  show ?thesis using intervalFires_facts [OF a i(1)] by (simp add: i(2))
qed

lemma funpow_fixed: "f x = x \<Longrightarrow> (f ^^ n) x = x"
  by (induction n) simp_all

section \<open>Evaluating the scenarios\<close>

subsection \<open>The arithmetic on numerals\<close>

lemma floor_numeral_div: "\<lfloor>numeral a / numeral b :: rat\<rfloor> = numeral a div numeral b"
  using floor_divide_of_int_eq [of "numeral a" "numeral b", where ?'a = rat] by simp

lemmas round_eval = roundDouble_def roundMagnitude_def ulpExp_def ulpUp.simps ulpDown.simps
  pow2_def roundHalfEven_def overflowThreshold_def floor_numeral_div

lemma roundDouble_2_53: "roundDouble 9007199254740992 = Finite 9007199254740992"
  by (simp add: round_eval)

lemma roundDouble_exact_le:
  assumes "0 \<le> k" "k \<le> 2 ^ 53"
  shows "roundDouble (of_int k) = Finite (of_int k)"
proof (cases "k = 2 ^ 53")
  case True
  then show ?thesis using roundDouble_2_53 by simp
next
  case False
  then show ?thesis using assms by (intro roundDouble_exact) simp_all
qed

lemmas js_arith = jsSub_def jsAdd_def jsNeg_def jsMul_def jsDiv_def jsFloor_def jsRem_def
  jsTrunc_def jsLess_def jsLessEq_def truthy_def isNegative_def
  roundDouble_numeral roundDouble_neg_numeral

lemmas modal_eval = orZero_def total_def finalSeconds_def handleChange_def setField_def
  handleSave_def DEFAULT_SETTINGS_eq

lemma parseInt_digits:
  "parseInt [48] = Finite 0" "parseInt [49] = Finite 1" "parseInt [49, 48] = Finite 10"
  "parseInt [45, 53] = Finite (- 5)"
  "parseInt [49, 53, 48, 49, 49, 57, 57, 56, 55, 53, 55, 57, 48, 49, 55] = Finite 150119987579017"
  by (simp_all add: parseInt_def isWhiteSpace_def isDigit_def digitsVal_def digitVal_def
      roundDouble_numeral roundDouble_neg_numeral)

lemma foldl_zeros: "foldl (\<lambda>a c. 10 * a + digitVal c) a (replicate n 48) = a * 10 ^ n"
  by (induction n arbitrary: a) (simp_all add: digitVal_def)

lemma initLocal_default:
  "initLocal DEFAULT_SETTINGS =
     \<lparr>pomodoro = \<lparr>m_val = Num (Finite 25), s_val = Num (Finite 0)\<rparr>,
      shortBreak = \<lparr>m_val = Num (Finite 5), s_val = Num (Finite 0)\<rparr>,
      longBreak = \<lparr>m_val = Num (Finite 15), s_val = Num (Finite 0)\<rparr>\<rparr>"
  by (simp add: initLocal_def toMinSec_def DEFAULT_SETTINGS_eq js_arith)

lemma big_product: "jsMul (Finite 150119987579017) (Finite 60) = Finite 9007199254741020"
  by (simp add: jsMul_def round_eval)

lemma big_sum: "jsAdd (Finite 9007199254741020) (Finite 0) = Finite 9007199254741020"
  by (simp add: jsAdd_def round_eval)

lemma big_tick: "jsSub (Finite 9007199254741020) (Finite 1) = Finite 9007199254741020"
  by (simp add: jsSub_def jsAdd_def jsNeg_def round_eval)

lemma progress_example:
  "jsSub (Finite 1) (jsDiv (Finite 1499) (Finite 1500)) = Finite (6004799503161 / 9007199254740992)"
  by (simp add: jsSub_def jsAdd_def jsNeg_def jsDiv_def round_eval)

subsection \<open>Rounding does not go below a double\<close>

lemma roundMagnitude_ge:
  assumes y: "isDouble y" and x: "y \<le> x" "x < pow2 1024"
  shows "y \<le> roundMagnitude x"
proof -
  from y obtain m q where mq: "0 \<le> m" "m < 2 ^ 53" "- 1074 \<le> q" "q \<le> 971" "y = of_int m * pow2 q"
    by (auto simp add: isDouble_def)
  let ?p = "ulpExp x"
  note props = ulpExp_props [OF x(2)]
  show ?thesis
  proof (cases "?p \<le> q")
    case True
    let ?k = "m * 2 ^ nat (q - ?p)"
    have "pow2 q = pow2 (q - ?p) * pow2 ?p" using pow2_add [of "q - ?p" ?p] by simp
    moreover have "pow2 (q - ?p) = of_int (2 ^ nat (q - ?p))" using True by (intro pow2_nat) simp
    ultimately have yk: "y = of_int ?k * pow2 ?p" using mq(5) by simp
    then have "y / pow2 ?p = of_int ?k" by simp
    moreover have "y / pow2 ?p \<le> x / pow2 ?p" using x(1) by (intro divide_right_mono) simp_all
    ultimately have "of_int ?k \<le> x / pow2 ?p" by simp
    then have "?k \<le> roundHalfEven (x / pow2 ?p)" by (rule roundHalfEven_ge)
    then have "(of_int ?k :: rat) \<le> of_int (roundHalfEven (x / pow2 ?p))"
      by (rule of_int_le_iff [THEN iffD2])
    then have "of_int ?k * pow2 ?p \<le> of_int (roundHalfEven (x / pow2 ?p)) * pow2 ?p"
      by (rule mult_right_mono) simp
    then show ?thesis using yk by (simp add: roundMagnitude_def)
  next
    case False
    then have l: "q < ?p" by simp
    then have "- 1074 < ?p" using mq(3) by simp
    then have lo: "pow2 (?p + 52) \<le> x" using props by simp
    have e: "pow2 (?p + 52) = of_int (2 ^ 52) * pow2 ?p"
      using pow2_add [of 52 ?p] by (simp add: pow2_def add.commute)
    then have "of_int (2 ^ 52) * pow2 ?p \<le> x" using lo by simp
    then have "of_int (2 ^ 52) \<le> x / pow2 ?p" by (simp add: pos_le_divide_eq)
    then have "2 ^ 52 \<le> roundHalfEven (x / pow2 ?p)" by (rule roundHalfEven_ge)
    then have "(of_int (2 ^ 52) :: rat) \<le> of_int (roundHalfEven (x / pow2 ?p))"
      by (rule of_int_le_iff [THEN iffD2])
    then have "of_int (2 ^ 52) * pow2 ?p \<le> of_int (roundHalfEven (x / pow2 ?p)) * pow2 ?p"
      by (rule mult_right_mono) simp
    then have r: "pow2 (?p + 52) \<le> roundMagnitude x" using e by (simp add: roundMagnitude_def)
    have "(of_int m :: rat) < of_int (2 ^ 53)" using mq(2) by (rule of_int_less_iff [THEN iffD2])
    then have "(of_int m :: rat) < pow2 53" by (simp add: pow2_53)
    then have "of_int m * pow2 q < pow2 53 * pow2 q" by (rule mult_strict_right_mono) simp
    then have "y < pow2 (q + 53)" using mq(5) pow2_add [of 53 q] by (simp add: add.commute)
    moreover have "pow2 (q + 53) \<le> pow2 (?p + 52)" using l by (intro pow2_mono) simp
    ultimately show ?thesis using r by simp
  qed
qed

lemma jsLessEq_0_count: "isCount v \<Longrightarrow> jsLessEq (Finite 0) v"
  by (erule isCount_cases) (auto simp add: jsLessEq_def jsLess_def)

subsection \<open>The settings modal, step by step\<close>

lemma openSettings_facts:
  assumes a: "consistent a" and m: "modal a = None"
  shows "consistent (openSettings a)
    \<and> modal (openSettings a) = Some (initLocal (settings a))
    \<and> mode (openSettings a) = mode a \<and> settings (openSettings a) = settings a
    \<and> timeLeft (openSettings a) = timeLeft a \<and> isActive (openSettings a) = isActive a
    \<and> soundEnabled (openSettings a) = soundEnabled a \<and> audioOk (openSettings a) = audioOk a
    \<and> completed (openSettings a) = completed a \<and> tonesPlayed (openSettings a) = tonesPlayed a
    \<and> errorsLogged (openSettings a) = errorsLogged a"
proof -
  note e = openSettings_eq [OF a]
  have c: "consistent (openSettings a)" by (rule e [THEN conjunct2])
  have "openSettings a = a\<lparr>showSettings := True, modal := Some (initLocal (settings a))\<rparr>"
    using e [THEN conjunct1] m by simp
  then show ?thesis using c by simp
qed

lemma changeField_facts:
  assumes a: "consistent a" and m: "modal a = Some l"
  shows "consistent (changeField k f v a)
    \<and> modal (changeField k f v a) = Some (handleChange k f v l)
    \<and> mode (changeField k f v a) = mode a \<and> settings (changeField k f v a) = settings a
    \<and> timeLeft (changeField k f v a) = timeLeft a \<and> isActive (changeField k f v a) = isActive a
    \<and> soundEnabled (changeField k f v a) = soundEnabled a
    \<and> audioOk (changeField k f v a) = audioOk a
    \<and> completed (changeField k f v a) = completed a
    \<and> tonesPlayed (changeField k f v a) = tonesPlayed a
    \<and> errorsLogged (changeField k f v a) = errorsLogged a"
proof -
  note e = changeField_eq [OF a m, of k f v]
  have c: "consistent (changeField k f v a)" by (rule e [THEN conjunct2])
  have "changeField k f v a = a\<lparr>modal := Some (handleChange k f v l)\<rparr>"
    by (rule e [THEN conjunct1])
  then show ?thesis using c by simp
qed

lemma saveClicked_facts:
  assumes a: "consistent a" and m: "modal a = Some l"
  shows "consistent (saveClicked a)
    \<and> settings (saveClicked a) = handleSave l
    \<and> timeLeft (saveClicked a) = get (handleSave l) (mode a)
    \<and> \<not> isActive (saveClicked a)
    \<and> mode (saveClicked a) = mode a
    \<and> soundEnabled (saveClicked a) = soundEnabled a \<and> audioOk (saveClicked a) = audioOk a
    \<and> completed (saveClicked a) = completed a \<and> tonesPlayed (saveClicked a) = tonesPlayed a
    \<and> errorsLogged (saveClicked a) = errorsLogged a"
proof -
  have "localOk l" using a m by (simp add: consistent_def modalOk_def)
  then have "settingsOk (handleSave l)" by (rule handleSave_ok)
  then show ?thesis using handleSaveSettings_facts [OF a, of "handleSave l"] m
    by (simp add: saveClicked_def)
qed

subsection \<open>Many ticks\<close>

lemma tick_many:
  assumes a: "consistent a" "isActive a" "timeLeft a = Finite (of_int n)" and n: "n \<le> 2 ^ 53"
  shows "int k < n \<Longrightarrow>
    consistent ((tick ^^ k) a) \<and> isActive ((tick ^^ k) a)
    \<and> timeLeft ((tick ^^ k) a) = Finite (of_int (n - int k))
    \<and> mode ((tick ^^ k) a) = mode a \<and> settings ((tick ^^ k) a) = settings a
    \<and> completed ((tick ^^ k) a) = completed a"
proof (induction k)
  case 0
  then show ?case using a by simp
next
  case (Suc k)
  let ?b = "(tick ^^ k) a"
  have b: "consistent ?b" "isActive ?b" "timeLeft ?b = Finite (of_int (n - int k))"
    "mode ?b = mode a" "settings ?b = settings a" "completed ?b = completed a"
    using Suc by simp_all
  have e: "jsSub (Finite (of_int (n - int k))) (Finite 1) = Finite (of_int (n - int k - 1))"
    using Suc.prems n by (intro tick_exact) simp_all
  have "(of_int (n - int k - 1) :: rat) \<noteq> 0" using Suc.prems by simp
  then have z: "Finite (of_int (n - int k - 1)) \<noteq> Finite 0" by simp
  have s: "n - int k - 1 = n - int (Suc k)" by simp
  show ?case using tick_facts [OF b(1,2)] b(3-) e z unfolding s by simp
qed

subsection \<open>The scenarios\<close>

lemma init_facts:
  "consistent (init ok) \<and> mode (init ok) = Pomodoro
    \<and> settings (init ok) = \<lparr>pomodoro = Finite 1500, shortBreak = Finite 300, longBreak = Finite 900\<rparr>
    \<and> timeLeft (init ok) = Finite 1500 \<and> \<not> isActive (init ok) \<and> modal (init ok) = None
    \<and> soundEnabled (init ok) \<and> audioOk (init ok) = ok \<and> completed (init ok) = 0
    \<and> tonesPlayed (init ok) = 0 \<and> errorsLogged (init ok) = 0"
  using init_consistent [of ok] by (simp add: init_eq mount_def DEFAULT_SETTINGS_eq)

lemma started_facts:
  "consistent started \<and> isActive started \<and> timeLeft started = Finite 1500
    \<and> mode started = Pomodoro
    \<and> settings started = \<lparr>pomodoro = Finite 1500, shortBreak = Finite 300, longBreak = Finite 900\<rparr>"
  using toggleTimer_facts [of "init True"] init_facts [of True] by (simp add: started_def)

lemma tick_started_facts:
  "consistent (tick started) \<and> isActive (tick started) \<and> timeLeft (tick started) = Finite 1499
    \<and> mode (tick started) = Pomodoro
    \<and> settings (tick started)
        = \<lparr>pomodoro = Finite 1500, shortBreak = Finite 300, longBreak = Finite 900\<rparr>"
  using tick_facts [of started] started_facts by (simp add: js_arith)

lemma ten_ticks_facts:
  "consistent ((tick ^^ 10) started) \<and> isActive ((tick ^^ 10) started)
    \<and> timeLeft ((tick ^^ 10) started) = Finite 1490
    \<and> mode ((tick ^^ 10) started) = Pomodoro"
  using tick_many [of started 1500 10] started_facts by simp

lemma default_local:
  "initLocal \<lparr>pomodoro = Finite 1500, shortBreak = Finite 300, longBreak = Finite 900\<rparr> =
     \<lparr>pomodoro = \<lparr>m_val = Num (Finite 25), s_val = Num (Finite 0)\<rparr>,
      shortBreak = \<lparr>m_val = Num (Finite 5), s_val = Num (Finite 0)\<rparr>,
      longBreak = \<lparr>m_val = Num (Finite 15), s_val = Num (Finite 0)\<rparr>\<rparr>"
  using initLocal_default by (simp add: DEFAULT_SETTINGS_eq)

lemma opened_facts:
  "consistent (openSettings (init ok))
    \<and> modal (openSettings (init ok))
        = Some \<lparr>pomodoro = \<lparr>m_val = Num (Finite 25), s_val = Num (Finite 0)\<rparr>,
                shortBreak = \<lparr>m_val = Num (Finite 5), s_val = Num (Finite 0)\<rparr>,
                longBreak = \<lparr>m_val = Num (Finite 15), s_val = Num (Finite 0)\<rparr>\<rparr>
    \<and> mode (openSettings (init ok)) = Pomodoro
    \<and> soundEnabled (openSettings (init ok)) \<and> audioOk (openSettings (init ok)) = ok
    \<and> completed (openSettings (init ok)) = 0 \<and> tonesPlayed (openSettings (init ok)) = 0
    \<and> errorsLogged (openSettings (init ok)) = 0"
  using openSettings_facts [of "init ok"] init_facts [of ok] by (simp add: default_local)

lemma zeroEntered_facts:
  "consistent zeroEntered
    \<and> modal zeroEntered
        = Some \<lparr>pomodoro = \<lparr>m_val = Num (Finite 0), s_val = Num (Finite 0)\<rparr>,
                shortBreak = \<lparr>m_val = Num (Finite 5), s_val = Num (Finite 0)\<rparr>,
                longBreak = \<lparr>m_val = Num (Finite 15), s_val = Num (Finite 0)\<rparr>\<rparr>
    \<and> mode zeroEntered = Pomodoro \<and> soundEnabled zeroEntered \<and> audioOk zeroEntered
    \<and> completed zeroEntered = 0"
  using changeField_facts [of "openSettings (init True)" _ Pomodoro M "[48]"] opened_facts [of True]
  by (simp add: zeroEntered_def handleChange_def setField_def parseInt_digits jsLessEq_def)

lemma oneSecondSaved_facts:
  "consistent oneSecondSaved \<and> \<not> isActive oneSecondSaved
    \<and> timeLeft oneSecondSaved = Finite 1 \<and> mode oneSecondSaved = Pomodoro
    \<and> settings oneSecondSaved
        = \<lparr>pomodoro = Finite 1, shortBreak = Finite 300, longBreak = Finite 900\<rparr>
    \<and> soundEnabled oneSecondSaved \<and> audioOk oneSecondSaved"
proof -
  let ?c = "changeField Pomodoro S [49] zeroEntered"
  have c: "consistent ?c
    \<and> modal ?c = Some \<lparr>pomodoro = \<lparr>m_val = Num (Finite 0), s_val = Num (Finite 1)\<rparr>,
                shortBreak = \<lparr>m_val = Num (Finite 5), s_val = Num (Finite 0)\<rparr>,
                longBreak = \<lparr>m_val = Num (Finite 15), s_val = Num (Finite 0)\<rparr>\<rparr>
    \<and> mode ?c = Pomodoro \<and> soundEnabled ?c \<and> audioOk ?c"
    using changeField_facts [of zeroEntered _ Pomodoro S "[49]"] zeroEntered_facts
    by (simp add: handleChange_def setField_def parseInt_digits jsLessEq_def jsLess_def)
  have e: "oneSecondSaved = saveClicked ?c" by (simp add: oneSecondSaved_def zeroEntered_def)
  show ?thesis unfolding e using saveClicked_facts [of ?c] c
    by (simp add: modal_eval js_arith roundDouble_0 roundDouble_1)
qed

lemma oneSecondLeft_facts:
  "consistent oneSecondLeft \<and> isActive oneSecondLeft \<and> timeLeft oneSecondLeft = Finite 1
    \<and> soundEnabled oneSecondLeft \<and> audioOk oneSecondLeft"
  using toggleTimer_facts [of oneSecondSaved] oneSecondSaved_facts
  by (simp add: oneSecondLeft_def)

lemma mutedOneSecondLeft_facts:
  "consistent mutedOneSecondLeft \<and> isActive mutedOneSecondLeft
    \<and> timeLeft mutedOneSecondLeft = Finite 1 \<and> \<not> soundEnabled mutedOneSecondLeft"
proof -
  have "consistent (toggleSound oneSecondSaved) \<and> \<not> isActive (toggleSound oneSecondSaved)
    \<and> timeLeft (toggleSound oneSecondSaved) = Finite 1
    \<and> \<not> soundEnabled (toggleSound oneSecondSaved)"
    using toggleSound_facts [of oneSecondSaved] oneSecondSaved_facts by simp
  then show ?thesis using toggleTimer_facts [of "toggleSound oneSecondSaved"]
    by (simp add: mutedOneSecondLeft_def)
qed

lemma bigRun_facts:
  "consistent bigRun \<and> isActive bigRun \<and> timeLeft bigRun = Finite 9007199254741020"
proof -
  let ?c = "changeField Pomodoro M
       [49, 53, 48, 49, 49, 57, 57, 56, 55, 53, 55, 57, 48, 49, 55] (openSettings (init True))"
  have c: "consistent ?c
    \<and> modal ?c = Some \<lparr>pomodoro = \<lparr>m_val = Num (Finite 150119987579017), s_val = Num (Finite 0)\<rparr>,
                shortBreak = \<lparr>m_val = Num (Finite 5), s_val = Num (Finite 0)\<rparr>,
                longBreak = \<lparr>m_val = Num (Finite 15), s_val = Num (Finite 0)\<rparr>\<rparr>
    \<and> mode ?c = Pomodoro"
    using changeField_facts [of "openSettings (init True)" _ Pomodoro M
        "[49, 53, 48, 49, 49, 57, 57, 56, 55, 53, 55, 57, 48, 49, 55]"] opened_facts [of True]
    by (simp add: handleChange_def setField_def parseInt_digits jsLessEq_def jsLess_def)
  have t: "total \<lparr>m_val = Num (Finite 150119987579017), s_val = Num (Finite 0)\<rparr>
            = Finite 9007199254741020"
    by (simp add: total_def orZero_def truthy_def big_product big_sum)
  have s: "consistent (saveClicked ?c) \<and> \<not> isActive (saveClicked ?c)
    \<and> timeLeft (saveClicked ?c) = Finite 9007199254741020"
    using saveClicked_facts [of ?c] c by (simp add: handleSave_def finalSeconds_def t truthy_def)
  show ?thesis using toggleTimer_facts [of "saveClicked ?c"] s by (simp add: bigRun_def)
qed

lemma tick_bigRun: "tick bigRun = bigRun"
proof -
  note b = bigRun_facts
  then obtain i where i: "i \<in> intervals bigRun" "tick bigRun = intervalFires i bigRun"
    using tick_running [of bigRun] by blast
  have "bigRun\<lparr>timeLeft := jsSub (timeLeft bigRun) (Finite 1)\<rparr> = bigRun"
    using b by (simp add: big_tick)
  moreover have "\<not> stale bigRun" using b by (simp add: consistent_def stale_iff)
  ultimately show ?thesis using i by (simp add: intervalFires_def settle_id)
qed

lemma parseInt_3e306:
  "\<exists>r. parseInt (51 # replicate 306 48) = Finite r
     \<and> 4810004064021534 * pow2 966 \<le> r"
proof -
  have "digitVal 51 = 3" by (simp add: digitVal_def)
  then have d: "digitsVal (51 # replicate 306 48) = 3 * 10 ^ 306"
    by (simp add: digitsVal_def foldl_zeros)
  let ?x = "of_int (3 * 10 ^ 306) :: rat"
  let ?y = "of_int 4810004064021534 * pow2 966"
  have p: "parseInt (51 # replicate 306 48) = roundDouble ?x"
    using d by (simp add: parseInt_def isWhiteSpace_def isDigit_def)
  have x: "?x < overflowThreshold" "0 < ?x" by (simp_all add: overflowThreshold_def pow2_def)
  then have "?x < pow2 1024" using overflowThreshold_less by simp
  moreover have "isDouble ?y"
    unfolding isDouble_def by (rule exI [of _ 4810004064021534], rule exI [of _ 966]) simp
  moreover have "?y \<le> ?x" by (simp add: pow2_def)
  ultimately have "?y \<le> roundMagnitude ?x" by (intro roundMagnitude_ge)
  moreover have "roundDouble ?x = Finite (roundMagnitude ?x)"
    using x unfolding roundDouble_def by simp
  ultimately show ?thesis using p by simp
qed

lemma hugeSaved_facts:
  "consistent hugeSaved \<and> mode hugeSaved = Pomodoro \<and> \<not> isActive hugeSaved
    \<and> timeLeft hugeSaved = PosInfinity \<and> pomodoro (settings hugeSaved) = PosInfinity"
proof -
  from parseInt_3e306 obtain r where r: "parseInt (51 # replicate 306 48) = Finite r"
    "4810004064021534 * pow2 966 \<le> r" by blast
  have r0: "0 \<le> r" by (rule order_trans [OF _ r(2)]) simp
  have "overflowThreshold \<le> 4810004064021534 * pow2 966 * 60"
    by (simp add: overflowThreshold_def pow2_def)
  moreover have "4810004064021534 * pow2 966 * 60 \<le> r * 60" using r(2) by simp
  ultimately have o: "overflowThreshold \<le> r * 60" by simp
  have "0 < overflowThreshold" by (rule less_trans [OF pow2_pos threshold_large])
  then have pos: "0 < r * 60" using o by simp
  then have rz: "r \<noteq> 0" by auto
  have m: "jsMul (Finite r) (Finite 60) = PosInfinity"
    using o pos by (simp add: jsMul_def roundDouble_def)
  let ?c = "changeField Pomodoro M (51 # replicate 306 48) (openSettings (init True))"
  have c: "consistent ?c
    \<and> modal ?c = Some \<lparr>pomodoro = \<lparr>m_val = Num (Finite r), s_val = Num (Finite 0)\<rparr>,
                shortBreak = \<lparr>m_val = Num (Finite 5), s_val = Num (Finite 0)\<rparr>,
                longBreak = \<lparr>m_val = Num (Finite 15), s_val = Num (Finite 0)\<rparr>\<rparr>
    \<and> mode ?c = Pomodoro"
    using changeField_facts [of "openSettings (init True)" _ Pomodoro M "51 # replicate 306 48"]
      opened_facts [of True] r(1) r0
    by (simp add: handleChange_def setField_def jsLessEq_def jsLess_def)
  have t: "total \<lparr>m_val = Num (Finite r), s_val = Num (Finite 0)\<rparr> = PosInfinity"
    using rz by (simp add: total_def orZero_def truthy_def m jsAdd_def)
  show ?thesis using saveClicked_facts [of ?c] c
    by (simp add: hugeSaved_def handleSave_def finalSeconds_def t truthy_def)
qed

subsection \<open>The scenarios are reachable\<close>

lemma reachable_started: "reachable started"
  unfolding started_def by (intro reachable.intros)

lemma reachable_oneSecondSaved: "reachable oneSecondSaved"
  unfolding oneSecondSaved_def by (intro reachable.intros)

lemma reachable_oneSecondLeft: "reachable oneSecondLeft"
  unfolding oneSecondLeft_def by (intro reachable.intros reachable_oneSecondSaved)

lemma reachable_mutedOneSecondLeft: "reachable mutedOneSecondLeft"
  unfolding mutedOneSecondLeft_def by (intro reachable.intros reachable_oneSecondSaved)

lemma reachable_zeroEntered: "reachable zeroEntered"
  unfolding zeroEntered_def by (intro reachable.intros)

lemma reachable_bigRun: "reachable bigRun"
  unfolding bigRun_def by (intro reachable.intros)

lemma reachable_hugeSaved: "reachable hugeSaved"
  unfolding hugeSaved_def by (intro reachable.intros)

lemma reachable_ticks: "reachable a \<Longrightarrow> reachable ((tick ^^ k) a)"
  by (induction k) (simp_all add: reachable_tick)

subsection \<open>What the modal computes on whole numbers\<close>

lemma handleChange_negative: "jsLess (parseInt v) (Finite 0) \<Longrightarrow> handleChange k f v l = l"
proof -
  assume n: "jsLess (parseInt v) (Finite 0)"
  have "parseInt [] = NaN" by (simp add: parseInt_def)
  then have "v \<noteq> []" using n by (auto simp add: jsLess_def)
  moreover have "\<not> jsLessEq (Finite 0) (parseInt v)"
    using n by (cases "parseInt v") (auto simp add: jsLess_def jsLessEq_def)
  ultimately show ?thesis by (simp add: handleChange_def)
qed

lemma handleChange_stores:
  "handleChange k f v l = l
    \<or> (v = [] \<and> handleChange k f v l = put k (setField f EmptyStr (get l k)) l)
    \<or> (isWhole (parseInt v)
        \<and> handleChange k f v l = put k (setField f (Num (parseInt v)) (get l k)) l)"
proof (cases "parseInt v \<noteq> NaN \<and> jsLessEq (Finite 0) (parseInt v)")
  case True
  then have "isWhole (parseInt v)"
    using parseInt_cases [of v] roundDouble_nonneg_int by auto
  then show ?thesis using True by (simp add: handleChange_def)
next
  case False
  then show ?thesis by (auto simp add: handleChange_def)
qed

lemma orZero_int: "orZero (Num (Finite (of_int x))) = Finite (of_int x)"
  by (simp add: orZero_def truthy_def)

lemma total_exact:
  assumes "0 \<le> x" "0 \<le> y" "x * 60 + y \<le> 2 ^ 53"
  shows "total \<lparr>m_val = Num (Finite (of_int x)), s_val = Num (Finite (of_int y))\<rparr>
           = Finite (of_int (x * 60 + y))"
proof -
  have "jsMul (Finite (of_int x)) (Finite 60) = roundDouble (of_int (x * 60))"
    by (simp add: jsMul_def)
  also have "\<dots> = Finite (of_int (x * 60))" using assms by (intro roundDouble_exact_le) simp_all
  finally have m: "jsMul (Finite (of_int x)) (Finite 60) = Finite (of_int (x * 60))" .
  have "jsAdd (Finite (of_int (x * 60))) (Finite (of_int y)) = roundDouble (of_int (x * 60 + y))"
    by (simp add: jsAdd_def)
  also have "\<dots> = Finite (of_int (x * 60 + y))"
    using assms by (intro roundDouble_exact_le) simp_all
  finally show ?thesis by (simp add: total_def orZero_int m)
qed

lemma finalSeconds_exact:
  assumes "0 \<le> x" "0 \<le> y" "x * 60 + y \<le> 2 ^ 53"
  shows "finalSeconds \<lparr>m_val = Num (Finite (of_int x)), s_val = Num (Finite (of_int y))\<rparr> d
           = (if x * 60 + y = 0 then d else Finite (of_int (x * 60 + y)))"
proof -
  have "(of_int (x * 60 + y) :: rat) = 0 \<longleftrightarrow> x * 60 + y = 0" by (rule of_int_eq_0_iff)
  then show ?thesis unfolding finalSeconds_def total_exact [OF assms] truthy_def by simp
qed

lemma total_empty:
  "total \<lparr>m_val = EmptyStr, s_val = e\<rparr> = total \<lparr>m_val = Num (Finite (of_int 0)), s_val = e\<rparr>"
  "total \<lparr>m_val = e, s_val = EmptyStr\<rparr> = total \<lparr>m_val = e, s_val = Num (Finite (of_int 0))\<rparr>"
  by (simp_all add: total_def orZero_def truthy_def)

lemma finalSeconds_empty:
  "finalSeconds \<lparr>m_val = EmptyStr, s_val = e\<rparr> d
     = finalSeconds \<lparr>m_val = Num (Finite (of_int 0)), s_val = e\<rparr> d"
  "finalSeconds \<lparr>m_val = e, s_val = EmptyStr\<rparr> d
     = finalSeconds \<lparr>m_val = e, s_val = Num (Finite (of_int 0))\<rparr> d"
  unfolding finalSeconds_def total_empty by simp_all

subsection \<open>The progress is within rounding of the exact quotient\<close>

lemma roundDouble_unit:
  assumes "0 \<le> x" "x \<le> 1"
  shows "\<exists>u. roundDouble x = Finite u \<and> 0 \<le> u \<and> u \<le> 1 \<and> \<bar>u - x\<bar> \<le> pow2 (- 53)"
proof (cases "x = 0")
  case True
  then show ?thesis by simp
next
  case False
  then have p: "0 < x" using assms(1) by simp
  have "(1::rat) < pow2 53" by (simp add: pow2_53)
  then have "x < overflowThreshold" using assms(2) threshold_large by simp
  then have e: "roundDouble x = Finite (roundMagnitude x)"
    using p unfolding roundDouble_def by simp
  have "isDouble 1" using isDouble_small [of 1] by simp
  then have "roundMagnitude x \<le> 1" using assms by (intro roundMagnitude_le)
  moreover have "0 \<le> roundMagnitude x" using assms(1) by (rule roundMagnitude_nonneg)
  moreover have "\<bar>roundMagnitude x - x\<bar> \<le> pow2 (- 53)" using assms by (rule roundMagnitude_near)
  ultimately show ?thesis using e by simp
qed

lemma progress_finite:
  assumes t: "0 \<le> t" "t \<le> d" and d: "1 \<le> d"
  shows "\<exists>q. jsSub (Finite 1) (jsDiv (Finite (of_int t)) (Finite (of_int d))) = Finite q
     \<and> 0 \<le> q \<and> q \<le> 1 \<and> \<bar>q - (1 - of_int t / of_int d)\<bar> \<le> 1 / 2 ^ 52"
proof -
  let ?x = "of_int t / of_int d :: rat"
  have d0: "(0::rat) < of_int d" using d by simp
  have "(of_int t :: rat) \<le> of_int d" using t(2) by simp
  then have x1: "?x \<le> 1" using d0 by (simp add: divide_le_eq_1)
  have x0: "0 \<le> ?x" using t(1) d0 by simp
  from roundDouble_unit [OF x0 x1] obtain u where
    u: "roundDouble ?x = Finite u" "0 \<le> u" "u \<le> 1" "\<bar>u - ?x\<bar> \<le> pow2 (- 53)" by blast
  have v: "0 \<le> 1 - u" "1 - u \<le> 1" using u(2,3) by simp_all
  from roundDouble_unit [OF v] obtain q where
    q: "roundDouble (1 - u) = Finite q" "0 \<le> q" "q \<le> 1" "\<bar>q - (1 - u)\<bar> \<le> pow2 (- 53)" by blast
  have "jsDiv (Finite (of_int t)) (Finite (of_int d)) = Finite u"
    using d0 u(1) by (simp add: jsDiv_def)
  then have e: "jsSub (Finite 1) (jsDiv (Finite (of_int t)) (Finite (of_int d))) = Finite q"
    using q(1) by (simp add: jsSub_def jsAdd_def jsNeg_def)
  have h: "pow2 (- 53) + pow2 (- 53) = 1 / 2 ^ 52" by (simp add: pow2_def)
  have "\<bar>q - (1 - ?x)\<bar> \<le> \<bar>q - (1 - u)\<bar> + \<bar>u - ?x\<bar>" by linarith
  also have "\<dots> \<le> pow2 (- 53) + pow2 (- 53)" using u(4) q(4) by linarith
  finally have "\<bar>q - (1 - ?x)\<bar> \<le> 1 / 2 ^ 52" unfolding h .
  then show ?thesis using e q(2,3) by blast
qed

lemma duration_cases:
  assumes a: "consistent a"
  obtains "get (settings a) (mode a) = PosInfinity" "isCount (timeLeft a)"
  | t d where "get (settings a) (mode a) = Finite (of_int d)" "timeLeft a = Finite (of_int t)"
      "0 \<le> t" "t \<le> d" "1 \<le> d"
proof -
  let ?d = "get (settings a) (mode a)"
  have dk: "durationOk ?d" using a by (intro settingsOk_get) (simp add: consistent_def)
  have tc: "isCount (timeLeft a)" and le: "jsLessEq (timeLeft a) ?d"
    using a by (simp_all add: consistent_def)
  from dk have "isCount ?d" "jsLessEq (Finite 1) ?d" by (simp_all add: durationOk_def)
  then consider "?d = PosInfinity" | d where "?d = Finite (of_int d)" "1 \<le> d"
    by (auto simp add: isCount_def jsLessEq_def jsLess_def)
  then show ?thesis
  proof cases
    case 1
    then show ?thesis using tc that(1) by simp
  next
    case (2 d)
    from tc le 2(1) obtain t where "timeLeft a = Finite (of_int t)" "0 \<le> t" "t \<le> d"
      by (auto simp add: isCount_def jsLessEq_def jsLess_def)
    then show ?thesis using 2 that(2) by simp
  qed
qed

section \<open>The claims\<close>

text \<open>
  C1, as the claim states it, fails above \<open>2^53\<close> seconds. With 150119987579017 minutes
  saved for the focus duration and the countdown started, \<open>9007199254741020\<close> seconds are
  left; \<open>prev - 1\<close> rounds back to the same double, so a tick takes nothing off, the
  countdown keeps running and a thousand ticks later the state is still the same.
\<close>

theorem C1_tick_counterexample:
  "reachable bigRun \<and> isActive bigRun \<and> timeLeft bigRun = Finite 9007199254741020
    \<and> jsLess (Finite 0) (timeLeft bigRun)
    \<and> timeLeft (tick bigRun) = Finite 9007199254741020
    \<and> isActive (tick bigRun)
    \<and> (tick ^^ 1000) bigRun = bigRun"
  using reachable_bigRun bigRun_facts tick_bigRun
  by (simp add: funpow_fixed jsLess_def)

text \<open>
  C1, amended. In every reachable state in which the countdown runs, time is left, and it
  is a whole number of seconds or \<open>Infinity\<close>. A tick replaces it by the double
  \<open>timeLeft - 1\<close>, which is never negative and never more than before; when at most
  \<open>2^53\<close> seconds are left it is exactly one second less, and \<open>Infinity\<close> stays
  \<open>Infinity\<close>. The countdown keeps running while time is left after the tick; the
  tick that reaches zero stops it and runs the completion branch once, and every later
  tick leaves that state as it is, so completion does not fire again.
\<close>

theorem C1_tick_counts_down:
  assumes "reachable a" and "isActive a"
  shows "jsLess (Finite 0) (timeLeft a)
    \<and> (timeLeft a = PosInfinity \<or> (\<exists>m. 1 \<le> m \<and> timeLeft a = Finite (of_int m)))
    \<and> timeLeft (tick a) = jsSub (timeLeft a) (Finite 1)
    \<and> jsLessEq (Finite 0) (timeLeft (tick a))
    \<and> jsLessEq (timeLeft (tick a)) (timeLeft a)
    \<and> (timeLeft a = Finite (of_int n) \<and> n \<le> 2 ^ 53
          \<longrightarrow> timeLeft (tick a) = Finite (of_int (n - 1)))
    \<and> (timeLeft a = PosInfinity \<longrightarrow> timeLeft (tick a) = PosInfinity)
    \<and> isActive (tick a) = (timeLeft (tick a) \<noteq> Finite 0)
    \<and> completed (tick a) = completed a + (if timeLeft (tick a) = Finite 0 then 1 else 0)
    \<and> (timeLeft (tick a) = Finite 0 \<longrightarrow> (\<forall>k. (tick ^^ k) (tick a) = tick a))"
proof -
  have a: "consistent a" using assms(1) by (rule reachable_consistent)
  have p: "jsLess (Finite 0) (timeLeft a)" using a assms(2) by (simp add: consistent_def)
  have c: "isCount (timeLeft a)" using a by (simp add: consistent_def)
  note f = tick_facts [OF a assms(2)]
  have w: "timeLeft a = PosInfinity \<or> (\<exists>m. 1 \<le> m \<and> timeLeft a = Finite (of_int m))"
    using c p by (cases rule: isCount_cases) (auto simp add: jsLess_def)
  have "consistent (tick a)" using f by simp
  then have "isCount (timeLeft (tick a))" by (simp add: consistent_def)
  then have z: "jsLessEq (Finite 0) (timeLeft (tick a))" by (rule jsLessEq_0_count)
  have le: "jsLessEq (timeLeft (tick a)) (timeLeft a)" using tick_count [OF c p] f by simp
  have e: "timeLeft (tick a) = Finite (of_int (n - 1))"
    if "timeLeft a = Finite (of_int n)" "n \<le> 2 ^ 53"
  proof -
    have "(0::rat) < of_int n" using p that(1) by (simp add: jsLess_def)
    then have "1 \<le> n" by simp
    then show ?thesis using f that by (simp add: tick_exact)
  qed
  have i: "timeLeft (tick a) = PosInfinity" if "timeLeft a = PosInfinity"
    using f that by (simp add: jsSub_def jsAdd_def jsNeg_def)
  have "tick (tick a) = tick a" if "timeLeft (tick a) = Finite 0"
    using that f by (intro tick_stopped) auto
  then have "\<forall>k. (tick ^^ k) (tick a) = tick a" if "timeLeft (tick a) = Finite 0"
    using that by (simp add: funpow_fixed)
  then show ?thesis using f p w z le e i by auto
qed

theorem C1_tick_counts_down_witness:
  "reachable oneSecondLeft \<and> isActive oneSecondLeft \<and> timeLeft oneSecondLeft = Finite 1
    \<and> timeLeft (tick oneSecondLeft) = Finite 0 \<and> \<not> isActive (tick oneSecondLeft)
    \<and> completed (tick oneSecondLeft) = completed oneSecondLeft + 1
    \<and> (tick ^^ 3) (tick oneSecondLeft) = tick oneSecondLeft
    \<and> reachable started \<and> isActive started \<and> timeLeft started = Finite 1500
    \<and> timeLeft (tick started) = Finite 1499 \<and> isActive (tick started)
    \<and> completed (tick started) = completed started"
proof -
  have e: "isActive oneSecondLeft" "timeLeft oneSecondLeft = Finite (of_int 1)"
    "isActive started" "timeLeft started = Finite (of_int 1500)"
    using oneSecondLeft_facts started_facts by simp_all
  show ?thesis
    using C1_tick_counts_down [OF reachable_oneSecondLeft e(1), of 1]
      C1_tick_counts_down [OF reachable_started e(3), of 1500]
      reachable_oneSecondLeft reachable_started e
    by (simp add: js_arith)
qed

text \<open>
  C2. In every state reachable from the mounted component by mode selection, start and
  pause, reset, ticks of the live interval and saving in the settings modal (and the other
  clicks the component offers), the time left lies between zero and the duration
  configured for the active mode.
\<close>

theorem C2_remaining_in_range:
  assumes "reachable a"
  shows "jsLessEq (Finite 0) (timeLeft a) \<and> jsLessEq (timeLeft a) (get (settings a) (mode a))"
  using reachable_consistent [OF assms] by (simp add: consistent_def jsLessEq_0_count)

theorem C2_remaining_in_range_witness:
  "reachable (tick started) \<and> jsLessEq (Finite 0) (timeLeft (tick started))
     \<and> jsLessEq (timeLeft (tick started)) (get (settings (tick started)) (mode (tick started)))
     \<and> timeLeft (tick started) = Finite 1499
     \<and> get (settings (tick started)) (mode (tick started)) = Finite 1500"
  using C2_remaining_in_range [of "tick started"] reachable_tick [OF reachable_started]
    tick_started_facts
  by simp

text \<open>
  C3, as the claim states it, fails: the code does not clamp a negative entry to zero.
  Evaluated on minutes \<open>-5\<close> and seconds \<open>10\<close>, the expression of \<open>handleSave\<close> gives
  \<open>-290\<close>, not \<open>10\<close>; and typing \<open>-5\<close> into the minutes and \<open>10\<close> into the seconds of
  the modal opened on the default 25 minutes saves \<open>1510\<close>, since the negative entry is
  dropped and the minutes stay at \<open>25\<close>.
\<close>

theorem C3_normalize_counterexample:
  "finalSeconds \<lparr>m_val = Num (Finite (- 5)), s_val = Num (Finite 10)\<rparr> (pomodoro DEFAULT_SETTINGS)
      = Finite (- 290)
    \<and> parseInt [45, 53] = Finite (- 5)
    \<and> pomodoro (handleSave (handleChange Pomodoro S [49, 48]
         (handleChange Pomodoro M [45, 53] (initLocal DEFAULT_SETTINGS)))) = Finite 1510"
  by (simp add: modal_eval js_arith parseInt_digits default_local)

text \<open>
  C3, amended. \<open>handleChange\<close> rejects an entry that parses to a negative number, and an
  entry that is not empty and does not start with a number: the stored fields are left as
  they were. What it stores is the empty string, for an empty entry, or the parsed number,
  which is then a whole number (or \<open>Infinity\<close>). For every fallback value, on whole minutes
  and seconds \<open>handleSave\<close> computes \<open>max(0, minutes) * 60 + max(0, seconds)\<close>, exactly as
  long as that is at most \<open>2^53\<close>, and the fallback when that total is zero; an empty
  field counts as zero, with the other field a number and with both fields empty.
\<close>

theorem C3_negative_rejected:
  "(jsLess (parseInt v) (Finite 0) \<longrightarrow> handleChange k f v l = l)
    \<and> (parseInt v = NaN \<and> v \<noteq> [] \<longrightarrow> handleChange k f v l = l)
    \<and> (handleChange k f v l = l
        \<or> (v = [] \<and> handleChange k f v l = put k (setField f EmptyStr (get l k)) l)
        \<or> (isWhole (parseInt v)
            \<and> handleChange k f v l = put k (setField f (Num (parseInt v)) (get l k)) l))
    \<and> (0 \<le> x \<and> 0 \<le> y \<and> x * 60 + y \<le> 2 ^ 53 \<longrightarrow>
          finalSeconds \<lparr>m_val = Num (Finite (of_int x)), s_val = Num (Finite (of_int y))\<rparr> d
            = (if max 0 x * 60 + max 0 y = 0 then d
               else Finite (of_int (max 0 x * 60 + max 0 y))))
    \<and> (0 \<le> y \<and> y \<le> 2 ^ 53 \<longrightarrow>
          finalSeconds \<lparr>m_val = EmptyStr, s_val = Num (Finite (of_int y))\<rparr> d
            = (if max 0 y = 0 then d else Finite (of_int (max 0 y))))
    \<and> (0 \<le> x \<and> x * 60 \<le> 2 ^ 53 \<longrightarrow>
          finalSeconds \<lparr>m_val = Num (Finite (of_int x)), s_val = EmptyStr\<rparr> d
            = (if max 0 x * 60 = 0 then d else Finite (of_int (max 0 x * 60))))
    \<and> finalSeconds \<lparr>m_val = EmptyStr, s_val = EmptyStr\<rparr> d = d"
proof -
  have 1: "jsLess (parseInt v) (Finite 0) \<longrightarrow> handleChange k f v l = l"
    by (simp add: handleChange_negative)
  have 2: "parseInt v = NaN \<and> v \<noteq> [] \<longrightarrow> handleChange k f v l = l"
    by (simp add: handleChange_def)
  have 4: "finalSeconds \<lparr>m_val = Num (Finite (of_int x)), s_val = Num (Finite (of_int y))\<rparr> d
            = (if max 0 x * 60 + max 0 y = 0 then d
               else Finite (of_int (max 0 x * 60 + max 0 y)))"
    if "0 \<le> x \<and> 0 \<le> y \<and> x * 60 + y \<le> 2 ^ 53"
    using that finalSeconds_exact [of x y d] by (simp add: max_def)
  have 5: "finalSeconds \<lparr>m_val = EmptyStr, s_val = Num (Finite (of_int y))\<rparr> d
            = (if max 0 y = 0 then d else Finite (of_int (max 0 y)))"
    if "0 \<le> y \<and> y \<le> 2 ^ 53"
    using that finalSeconds_exact [of 0 y d] by (simp add: finalSeconds_empty max_def)
  have 6: "finalSeconds \<lparr>m_val = Num (Finite (of_int x)), s_val = EmptyStr\<rparr> d
            = (if max 0 x * 60 = 0 then d else Finite (of_int (max 0 x * 60)))"
    if "0 \<le> x \<and> x * 60 \<le> 2 ^ 53"
    using that finalSeconds_exact [of x 0 d] by (simp add: finalSeconds_empty max_def)
  have 7: "finalSeconds \<lparr>m_val = EmptyStr, s_val = EmptyStr\<rparr> d = d"
    using finalSeconds_exact [of 0 0 d] by (simp add: finalSeconds_empty)
  show ?thesis using 1 2 handleChange_stores [of k f v l] 4 5 6 7 by blast
qed

theorem C3_negative_rejected_witness:
  "parseInt [45, 53] = Finite (- 5) \<and> jsLess (parseInt [45, 53]) (Finite 0)
    \<and> handleChange Pomodoro M [45, 53] (initLocal DEFAULT_SETTINGS) = initLocal DEFAULT_SETTINGS
    \<and> parseInt [97] = NaN
    \<and> handleChange Pomodoro M [97] (initLocal DEFAULT_SETTINGS) = initLocal DEFAULT_SETTINGS
    \<and> finalSeconds \<lparr>m_val = Num (Finite 0), s_val = Num (Finite 10)\<rparr> (Finite 1500) = Finite 10
    \<and> finalSeconds \<lparr>m_val = Num (Finite 25), s_val = Num (Finite 0)\<rparr> (Finite 300) = Finite 1500
    \<and> finalSeconds \<lparr>m_val = Num (Finite 0), s_val = Num (Finite 0)\<rparr> (Finite 1500) = Finite 1500
    \<and> finalSeconds \<lparr>m_val = EmptyStr, s_val = Num (Finite 10)\<rparr> (Finite 1500) = Finite 10
    \<and> finalSeconds \<lparr>m_val = Num (Finite 2), s_val = EmptyStr\<rparr> (Finite 1500) = Finite 120
    \<and> finalSeconds \<lparr>m_val = EmptyStr, s_val = EmptyStr\<rparr> (Finite 1500) = Finite 1500"
proof -
  have e: "parseInt [45, 53] = Finite (- 5)" by (simp add: parseInt_digits)
  have n: "parseInt [97] = NaN" by (simp add: parseInt_def isWhiteSpace_def isDigit_def)
  show ?thesis
    using C3_negative_rejected [of "[45, 53]" Pomodoro M "initLocal DEFAULT_SETTINGS" 0 10 "Finite 1500"]
      C3_negative_rejected [of "[97]" Pomodoro M "initLocal DEFAULT_SETTINGS" 25 0 "Finite 300"]
      C3_negative_rejected [of "[97]" Pomodoro M "initLocal DEFAULT_SETTINGS" 2 0 "Finite 1500"]
      C3_negative_rejected [of "[97]" Pomodoro M "initLocal DEFAULT_SETTINGS" 0 0 "Finite 1500"] e n
    by (simp add: jsLess_def)
qed

text \<open>
  C4, as the claim states it, fails: the progress is not always a value between 0 and 1.
  With a 3 followed by 306 zeros typed into the minutes of the focus duration and saved,
  the number of seconds overflows to \<open>Infinity\<close>; the duration and the time left are both
  \<open>Infinity\<close>, and the progress \<open>1 - Infinity / Infinity\<close> is \<open>NaN\<close>.
\<close>

theorem C4_progress_counterexample:
  "reachable hugeSaved \<and> mode hugeSaved = Pomodoro
    \<and> get (settings hugeSaved) (mode hugeSaved) = PosInfinity
    \<and> timeLeft hugeSaved = PosInfinity
    \<and> progress hugeSaved = NaN"
  using reachable_hugeSaved hugeSaved_facts
  by (simp add: progress_def jsDiv_def jsSub_def jsAdd_def jsNeg_def)

text \<open>
  C4, amended. In every reachable state the duration configured for the active mode is at
  least one second, so the division is never by zero. When that duration is finite, the
  time left and the duration are whole numbers \<open>t \<le> d\<close>, and the progress, computed in
  double arithmetic, is a value between 0 and 1 that differs from \<open>1 - t / d\<close> by at most
  \<open>2^-52\<close>. When the duration is \<open>Infinity\<close>, the progress is \<open>NaN\<close> if the time left is
  \<open>Infinity\<close> too, and 1 otherwise.
\<close>

theorem C4_progress_reachable:
  assumes "reachable a"
  shows "jsLessEq (Finite 1) (get (settings a) (mode a))
    \<and> (get (settings a) (mode a) = PosInfinity \<longrightarrow>
          progress a = (if timeLeft a = PosInfinity then NaN else Finite 1))
    \<and> (get (settings a) (mode a) \<noteq> PosInfinity \<longrightarrow>
          (\<exists>t d q. timeLeft a = Finite (of_int t) \<and> get (settings a) (mode a) = Finite (of_int d)
             \<and> 0 \<le> t \<and> t \<le> d \<and> 1 \<le> d
             \<and> progress a = Finite q \<and> 0 \<le> q \<and> q \<le> 1
             \<and> \<bar>q - (1 - of_int t / of_int d)\<bar> \<le> 1 / 2 ^ 52))"
proof -
  have a: "consistent a" using assms by (rule reachable_consistent)
  then have "durationOk (get (settings a) (mode a))"
    by (intro settingsOk_get) (simp add: consistent_def)
  then have 1: "jsLessEq (Finite 1) (get (settings a) (mode a))" by (simp add: durationOk_def)
  from a show ?thesis
  proof (cases rule: duration_cases)
    case 1
    from 1(2) have "progress a = (if timeLeft a = PosInfinity then NaN else Finite 1)"
      unfolding progress_def 1(1)
      by (cases rule: isCount_cases) (simp_all add: jsDiv_def jsSub_def jsAdd_def jsNeg_def)
    then show ?thesis using \<open>jsLessEq (Finite 1) (get (settings a) (mode a))\<close> 1(1) by simp
  next
    case (2 t d)
    from progress_finite [OF 2(3,4,5)] obtain q where
      q: "jsSub (Finite 1) (jsDiv (Finite (of_int t)) (Finite (of_int d))) = Finite q"
        "0 \<le> q" "q \<le> 1" "\<bar>q - (1 - of_int t / of_int d)\<bar> \<le> 1 / 2 ^ 52" by blast
    have "progress a = Finite q" using q(1) 2(1,2) by (simp add: progress_def)
    then have "\<exists>t d q. timeLeft a = Finite (of_int t) \<and> get (settings a) (mode a) = Finite (of_int d)
             \<and> 0 \<le> t \<and> t \<le> d \<and> 1 \<le> d
             \<and> progress a = Finite q \<and> 0 \<le> q \<and> q \<le> 1
             \<and> \<bar>q - (1 - of_int t / of_int d)\<bar> \<le> 1 / 2 ^ 52"
      using 2 q(2,3,4) by blast
    then show ?thesis using \<open>jsLessEq (Finite 1) (get (settings a) (mode a))\<close> 2(1) by simp
  qed
qed

theorem C4_progress_reachable_witness:
  "reachable (tick started)
    \<and> get (settings (tick started)) (mode (tick started)) = Finite 1500
    \<and> timeLeft (tick started) = Finite 1499
    \<and> jsLessEq (Finite 1) (get (settings (tick started)) (mode (tick started)))
    \<and> progress (tick started) = Finite (6004799503161 / 9007199254740992)
    \<and> reachable hugeSaved \<and> get (settings hugeSaved) (mode hugeSaved) = PosInfinity
    \<and> progress hugeSaved = NaN"
proof -
  have r: "reachable (tick started)" using reachable_started by (rule reachable_tick)
  have e: "get (settings (tick started)) (mode (tick started)) = Finite 1500"
    "timeLeft (tick started) = Finite 1499"
    "get (settings hugeSaved) (mode hugeSaved) = PosInfinity" "timeLeft hugeSaved = PosInfinity"
    using tick_started_facts hugeSaved_facts by simp_all
  have p: "progress (tick started) = Finite (6004799503161 / 9007199254740992)"
    unfolding progress_def e by (rule progress_example)
  show ?thesis
    using C4_progress_reachable [OF r] C4_progress_reachable [OF reachable_hugeSaved]
      r reachable_hugeSaved e p
    by simp
qed

text \<open>
  C5. For every mode, when the total of the entered minutes and seconds is zero,
  \<open>handleSave\<close> yields the built-in default of that mode (1500, 300 and 900 seconds). Every
  duration held in the settings of a reachable state is at least one second, and saving
  from a reachable state always stores the result of \<open>handleSave\<close>, whose durations are
  all at least one second: there is no error path.
\<close>

theorem C5_zero_total_gives_default:
  "(total (get l k) = Finite 0 \<longrightarrow> get (handleSave l) k = get DEFAULT_SETTINGS k)
    \<and> get DEFAULT_SETTINGS Pomodoro = Finite 1500
    \<and> get DEFAULT_SETTINGS ShortBreak = Finite 300
    \<and> get DEFAULT_SETTINGS LongBreak = Finite 900
    \<and> (reachable a \<longrightarrow> jsLessEq (Finite 1) (get (settings a) k))
    \<and> (reachable a \<and> modal a = Some l \<longrightarrow>
          settings (saveClicked a) = handleSave l \<and> jsLessEq (Finite 1) (get (handleSave l) k))"
proof -
  have 1: "total (get l k) = Finite 0 \<longrightarrow> get (handleSave l) k = get DEFAULT_SETTINGS k"
    by (cases k) (simp_all add: handleSave_def finalSeconds_def truthy_def)
  have 2: "jsLessEq (Finite 1) (get (settings a) k)" if "reachable a"
  proof -
    have "durationOk (get (settings a) k)"
      using reachable_consistent [OF that] by (intro settingsOk_get) (simp add: consistent_def)
    then show ?thesis by (simp add: durationOk_def)
  qed
  have 3: "settings (saveClicked a) = handleSave l \<and> jsLessEq (Finite 1) (get (handleSave l) k)"
    if r: "reachable a" and m: "modal a = Some l"
  proof -
    have c: "consistent a" using r by (rule reachable_consistent)
    then have "localOk l" using m by (simp add: consistent_def modalOk_def)
    then have "durationOk (get (handleSave l) k)" by (intro settingsOk_get handleSave_ok)
    then have "jsLessEq (Finite 1) (get (handleSave l) k)" by (simp add: durationOk_def)
    then show ?thesis using saveClicked_facts [OF c m] by simp
  qed
  show ?thesis using 1 2 3 by (simp add: DEFAULT_SETTINGS_eq)
qed

theorem C5_zero_total_gives_default_witness:
  "reachable zeroEntered
    \<and> modal zeroEntered
        = Some \<lparr>pomodoro = \<lparr>m_val = Num (Finite 0), s_val = Num (Finite 0)\<rparr>,
                shortBreak = \<lparr>m_val = Num (Finite 5), s_val = Num (Finite 0)\<rparr>,
                longBreak = \<lparr>m_val = Num (Finite 15), s_val = Num (Finite 0)\<rparr>\<rparr>
    \<and> total \<lparr>m_val = Num (Finite 0), s_val = Num (Finite 0)\<rparr> = Finite 0
    \<and> get (settings (saveClicked zeroEntered)) Pomodoro = Finite 1500
    \<and> jsLessEq (Finite 1) (get (settings (saveClicked zeroEntered)) ShortBreak)"
proof -
  let ?l = "\<lparr>pomodoro = \<lparr>m_val = Num (Finite 0), s_val = Num (Finite 0)\<rparr>,
             shortBreak = \<lparr>m_val = Num (Finite 5), s_val = Num (Finite 0)\<rparr>,
             longBreak = \<lparr>m_val = Num (Finite 15), s_val = Num (Finite 0)\<rparr>\<rparr>"
  have e: "modal zeroEntered = Some ?l"
    "total \<lparr>m_val = Num (Finite 0), s_val = Num (Finite 0)\<rparr> = Finite 0"
    using zeroEntered_facts by (simp_all add: total_def orZero_def truthy_def js_arith)
  show ?thesis
    using C5_zero_total_gives_default [of ?l Pomodoro zeroEntered]
      C5_zero_total_gives_default [of ?l ShortBreak zeroEntered]
      reachable_zeroEntered e
    by simp
qed

text \<open>
  C6. In every reachable state, running or not, \<open>handleSaveSettings\<close> with any new
  settings object replaces the settings as a whole and leaves the session as a reset of
  the active mode does: the time left is the new duration of the active mode, the
  countdown is stopped and no interval is live, the mode is unchanged, and a reset applied
  afterwards changes nothing.
\<close>

theorem C6_applyConfig_resets:
  assumes "reachable a"
  shows "settings (handleSaveSettings c a) = c
    \<and> mode (handleSaveSettings c a) = mode a
    \<and> timeLeft (handleSaveSettings c a) = get c (mode a)
    \<and> \<not> isActive (handleSaveSettings c a)
    \<and> intervals (handleSaveSettings c a) = {}
    \<and> resetTimer (handleSaveSettings c a) = handleSaveSettings c a"
proof -
  have a: "consistent a" using assms by (rule reachable_consistent)
  note f = handleSaveSettings_facts [OF a, of c]
  let ?b = "handleSaveSettings c a"
  have "?b\<lparr>isActive := False, timeLeft := get (settings ?b) (mode ?b)\<rparr> = ?b"
    using f by simp
  moreover have "\<not> stale ?b" unfolding handleSaveSettings_def by (rule settle_not_stale)
  ultimately have "resetTimer ?b = ?b"
    by (simp add: resetTimer_def [of ?b] settle_id)
  then show ?thesis using f by simp
qed

theorem C6_applyConfig_resets_witness:
  "reachable ((tick ^^ 10) started) \<and> isActive ((tick ^^ 10) started)
    \<and> timeLeft ((tick ^^ 10) started) = Finite 1490
    \<and> timeLeft (handleSaveSettings
          \<lparr>pomodoro = Finite 60, shortBreak = Finite 300, longBreak = Finite 900\<rparr>
          ((tick ^^ 10) started)) = Finite 60
    \<and> \<not> isActive (handleSaveSettings
          \<lparr>pomodoro = Finite 60, shortBreak = Finite 300, longBreak = Finite 900\<rparr>
          ((tick ^^ 10) started))"
proof -
  have r: "reachable ((tick ^^ 10) started)" using reachable_started by (rule reachable_ticks)
  show ?thesis
    using C6_applyConfig_resets [OF r,
        of "\<lparr>pomodoro = Finite 60, shortBreak = Finite 300, longBreak = Finite 900\<rparr>"]
      r ten_ticks_facts
    by simp
qed

text \<open>
  C7, as the claim states it, fails for the mode that is already active: one second into a
  running focus countdown, clicking the focus button again leaves 1499 of the configured
  1500 seconds and the countdown running.
\<close>

theorem C7_selectMode_counterexample:
  "isActive (tick started) \<and> mode (tick started) = Pomodoro
    \<and> timeLeft (setMode Pomodoro (tick started)) = Finite 1499
    \<and> get (settings (setMode Pomodoro (tick started))) Pomodoro = Finite 1500
    \<and> isActive (setMode Pomodoro (tick started))"
  using setMode_same [of "tick started"] tick_started_facts by simp

text \<open>
  C7, amended. In every reachable state, selecting a mode other than the active one makes
  it the active mode, sets the time left to its configured duration, stops the countdown
  and leaves no interval live; selecting the mode that is already active changes nothing.
\<close>

theorem C7_selectMode_other:
  assumes "reachable a"
  shows "(if m = mode a then setMode m a = a
          else mode (setMode m a) = m
             \<and> settings (setMode m a) = settings a
             \<and> timeLeft (setMode m a) = get (settings a) m
             \<and> \<not> isActive (setMode m a)
             \<and> intervals (setMode m a) = {})"
proof -
  have a: "consistent a" using assms by (rule reachable_consistent)
  show ?thesis using setMode_facts [OF a, of m] setMode_same [OF a] by auto
qed

theorem C7_selectMode_other_witness:
  "reachable (tick started) \<and> isActive (tick started)
    \<and> mode (setMode ShortBreak (tick started)) = ShortBreak
    \<and> timeLeft (setMode ShortBreak (tick started)) = Finite 300
    \<and> \<not> isActive (setMode ShortBreak (tick started))
    \<and> setMode Pomodoro (tick started) = tick started"
proof -
  have r: "reachable (tick started)" using reachable_started by (rule reachable_tick)
  show ?thesis
    using C7_selectMode_other [OF r, of ShortBreak] C7_selectMode_other [OF r, of Pomodoro] r
      tick_started_facts
    by simp
qed

text \<open>
  C8. Reset is idempotent: in every reachable state, resetting twice gives the same state
  as resetting once, and after a reset the time left is the duration configured for the
  active mode, the countdown is stopped, and the mode and the settings are unchanged.
\<close>

theorem C8_reset_idempotent:
  assumes "reachable a"
  shows "resetTimer (resetTimer a) = resetTimer a
    \<and> timeLeft (resetTimer a) = get (settings a) (mode a)
    \<and> \<not> isActive (resetTimer a)
    \<and> mode (resetTimer a) = mode a \<and> settings (resetTimer a) = settings a"
proof -
  have a: "consistent a" using assms by (rule reachable_consistent)
  note f = resetTimer_facts [OF a]
  let ?b = "resetTimer a"
  have "?b\<lparr>isActive := False, timeLeft := get (settings ?b) (mode ?b)\<rparr> = ?b"
    using f by simp
  moreover have "\<not> stale ?b" using f by (simp add: consistent_def stale_iff)
  ultimately have "resetTimer ?b = ?b"
    by (simp add: resetTimer_def [of ?b] settle_id)
  then show ?thesis using f by simp
qed

theorem C8_reset_idempotent_witness:
  "reachable (tick started)
    \<and> resetTimer (resetTimer (tick started)) = resetTimer (tick started)
    \<and> timeLeft (tick started) = Finite 1499 \<and> isActive (tick started)
    \<and> timeLeft (resetTimer (tick started)) = Finite 1500
    \<and> \<not> isActive (resetTimer (tick started))"
proof -
  have r: "reachable (tick started)" using reachable_started by (rule reachable_tick)
  show ?thesis using C8_reset_idempotent [OF r] r tick_started_facts by simp
qed

text \<open>
  C9. When the tick that reaches zero arrives, whether or not the audio subsystem works:
  the countdown is stopped at zero, the completion branch has run once, and mode and
  settings are untouched. With the sound switched off no tone is played and nothing is
  logged; with the sound on and the audio failing no tone is played, the error is logged
  once, and the session is the same as when the audio works.
\<close>

theorem C9_completion_and_sound:
  assumes "reachable a" and "isActive a" and "timeLeft a = Finite 1"
  shows "mode (tick (a\<lparr>audioOk := ok\<rparr>)) = mode a
    \<and> settings (tick (a\<lparr>audioOk := ok\<rparr>)) = settings a
    \<and> timeLeft (tick (a\<lparr>audioOk := ok\<rparr>)) = Finite 0
    \<and> \<not> isActive (tick (a\<lparr>audioOk := ok\<rparr>))
    \<and> completed (tick (a\<lparr>audioOk := ok\<rparr>)) = completed a + 1
    \<and> tonesPlayed (tick (a\<lparr>audioOk := ok\<rparr>))
          = tonesPlayed a + (if soundEnabled a \<and> ok then 1 else 0)
    \<and> errorsLogged (tick (a\<lparr>audioOk := ok\<rparr>))
          = errorsLogged a + (if soundEnabled a \<and> \<not> ok then 1 else 0)"
proof -
  have "consistent a" using assms(1) by (rule reachable_consistent)
  then have b: "consistent (a\<lparr>audioOk := ok\<rparr>)" by (rule audio_consistent)
  have "isActive (a\<lparr>audioOk := ok\<rparr>)" using assms(2) by simp
  moreover have "jsSub (Finite 1) (Finite 1) = Finite 0"
    by (simp add: jsSub_def jsAdd_def jsNeg_def)
  ultimately show ?thesis using tick_facts [OF b] assms(3) by simp
qed

theorem C9_completion_and_sound_witness:
  "reachable mutedOneSecondLeft \<and> isActive mutedOneSecondLeft
    \<and> timeLeft mutedOneSecondLeft = Finite 1 \<and> \<not> soundEnabled mutedOneSecondLeft
    \<and> \<not> isActive (tick (mutedOneSecondLeft\<lparr>audioOk := False\<rparr>))
    \<and> completed (tick (mutedOneSecondLeft\<lparr>audioOk := False\<rparr>))
          = completed mutedOneSecondLeft + 1
    \<and> tonesPlayed (tick (mutedOneSecondLeft\<lparr>audioOk := False\<rparr>))
          = tonesPlayed mutedOneSecondLeft
    \<and> errorsLogged (tick (mutedOneSecondLeft\<lparr>audioOk := False\<rparr>))
          = errorsLogged mutedOneSecondLeft
    \<and> reachable oneSecondLeft \<and> isActive oneSecondLeft
    \<and> timeLeft oneSecondLeft = Finite 1 \<and> soundEnabled oneSecondLeft
    \<and> \<not> isActive (tick (oneSecondLeft\<lparr>audioOk := False\<rparr>))
    \<and> timeLeft (tick (oneSecondLeft\<lparr>audioOk := False\<rparr>)) = Finite 0
    \<and> tonesPlayed (tick (oneSecondLeft\<lparr>audioOk := False\<rparr>)) = tonesPlayed oneSecondLeft
    \<and> errorsLogged (tick (oneSecondLeft\<lparr>audioOk := False\<rparr>))
          = errorsLogged oneSecondLeft + 1"
proof -
  have e: "isActive mutedOneSecondLeft" "timeLeft mutedOneSecondLeft = Finite 1"
    "\<not> soundEnabled mutedOneSecondLeft"
    "isActive oneSecondLeft" "timeLeft oneSecondLeft = Finite 1" "soundEnabled oneSecondLeft"
    using mutedOneSecondLeft_facts oneSecondLeft_facts by simp_all
  show ?thesis
    using C9_completion_and_sound [OF reachable_mutedOneSecondLeft e(1,2), of False]
      C9_completion_and_sound [OF reachable_oneSecondLeft e(4,5), of False]
      reachable_mutedOneSecondLeft reachable_oneSecondLeft e
    by simp
qed

text \<open>
  C10. No reachable state has the countdown running with no time left. Starting when no
  time is left is permitted: the handler switches \<open>isActive\<close> on, the first commit after
  it switches it off again, and once the effects have settled the countdown is stopped at
  zero, the completion branch has run once, and no tick was needed or is due.
\<close>

theorem C10_start_at_zero:
  assumes "reachable a"
  shows "\<not> (isActive a \<and> timeLeft a = Finite 0)
    \<and> (timeLeft a = Finite 0 \<longrightarrow>
          isActive (a\<lparr>isActive := \<not> isActive a\<rparr>)
        \<and> \<not> isActive (commit (a\<lparr>isActive := \<not> isActive a\<rparr>))
        \<and> \<not> isActive (toggleTimer a)
        \<and> timeLeft (toggleTimer a) = Finite 0
        \<and> completed (toggleTimer a) = completed a + 1
        \<and> tick (toggleTimer a) = toggleTimer a)"
proof -
  have a: "consistent a" using assms by (rule reachable_consistent)
  then have n: "\<not> (isActive a \<and> timeLeft a = Finite 0)"
    by (auto simp add: consistent_def jsLess_def)
  note f = toggleTimer_facts [OF a]
  have "isActive (a\<lparr>isActive := \<not> isActive a\<rparr>)
        \<and> \<not> isActive (commit (a\<lparr>isActive := \<not> isActive a\<rparr>))
        \<and> \<not> isActive (toggleTimer a)
        \<and> timeLeft (toggleTimer a) = Finite 0
        \<and> completed (toggleTimer a) = completed a + 1
        \<and> tick (toggleTimer a) = toggleTimer a" if z: "timeLeft a = Finite 0"
  proof -
    have i: "\<not> isActive a" using n z by simp
    let ?x = "a\<lparr>isActive := \<not> isActive a\<rparr>"
    have c: "commit ?x = (tickEffect True (Finite 0) (clearTimer ?x))\<lparr>deps1 := Some (curDeps1 ?x)\<rparr>"
      using a i z commit_tick [of ?x]
      by (simp add: consistent_def curDeps1_def curDeps2_def)
    have "\<not> isActive (commit ?x)"
      unfolding c by (simp add: tickEffect_done clearTimer_eq)
    moreover have "tick (toggleTimer a) = toggleTimer a"
      using f i z by (intro tick_stopped) auto
    ultimately show ?thesis using f i z by simp
  qed
  then show ?thesis using n by blast
qed

theorem C10_start_at_zero_witness:
  "reachable (tick oneSecondLeft) \<and> timeLeft (tick oneSecondLeft) = Finite 0
    \<and> \<not> isActive (tick oneSecondLeft)
    \<and> \<not> isActive (toggleTimer (tick oneSecondLeft))
    \<and> completed (toggleTimer (tick oneSecondLeft)) = completed (tick oneSecondLeft) + 1
    \<and> tick (toggleTimer (tick oneSecondLeft)) = toggleTimer (tick oneSecondLeft)"
proof -
  have r: "reachable (tick oneSecondLeft)" using reachable_oneSecondLeft by (rule reachable_tick)
  have "jsSub (Finite 1) (Finite 1) = Finite 0" by (simp add: jsSub_def jsAdd_def jsNeg_def)
  then have e: "timeLeft (tick oneSecondLeft) = Finite 0"
    using tick_facts [of oneSecondLeft] oneSecondLeft_facts by simp
  show ?thesis using C10_start_at_zero [OF r] r e by simp
qed

end
